theory Spec2Isabelle
  imports Main "HOL-Library.Word" "HOL-Library.Sublist" "HOL-Library.Monad_Syntax"
begin

section \<open>Bytes and C strings\<close>

text \<open>
  The firmware is built for the ESP32 family, where \<open>char\<close> is an unsigned 8-bit type, so a
  byte is an \<open>8 word\<close> and the comparison \<open>output[i] < 32\<close> of the source is the unsigned
  order of words. A \<open>char *\<close> argument is modelled by the bytes stored from the pointer on;
  the C string it denotes is the part before the first NUL byte (the whole list when
  the list holds no NUL, the terminator then being the byte that follows it in memory).
\<close>

type_synonym byte = "8 word"

definition cstr :: "byte list \<Rightarrow> byte list" where
  "cstr bs = takeWhile (\<lambda>b. b \<noteq> 0) bs"

definition bytes_of :: "string \<Rightarrow> byte list" where
  "bytes_of cs = map of_char cs"

definition COLON :: byte where
  "COLON = 0x3A"

definition DQUOTE :: byte where
  "DQUOTE = 0x22"

definition UNDERSCORE :: byte where
  "UNDERSCORE = 0x5F"

text \<open>
  \<open>strstr\<close> and \<open>strchr\<close> of the C library on C strings. A returned pointer is the offset
  of the match from the start of the searched string; the null pointer is \<open>None\<close>.
  \<open>strstr\<close> with an empty needle returns the haystack itself.
\<close>

fun strstr :: "byte list \<Rightarrow> byte list \<Rightarrow> nat option" where
  "strstr [] needle = (if needle = [] then Some 0 else None)"
| "strstr (x # xs) needle =
     (if prefix needle (x # xs) then Some 0 else map_option Suc (strstr xs needle))"

fun strchr :: "byte list \<Rightarrow> byte \<Rightarrow> nat option" where
  "strchr [] c = None"
| "strchr (x # xs) c = (if x = c then Some 0 else map_option Suc (strchr xs c))"

text \<open>
  \<open>strncpy dest src n\<close> writes exactly \<open>n\<close> bytes at the start of \<open>dest\<close>: the bytes of the
  C string \<open>src\<close>, at most \<open>n\<close> of them, then NUL bytes up to \<open>n\<close>. The bytes of \<open>dest\<close> from
  offset \<open>n\<close> on are kept. Writing past the end of the destination array is undefined in
  C; the callers of this program pass the size of the array itself.
\<close>

definition strncpy :: "byte list \<Rightarrow> byte list \<Rightarrow> nat \<Rightarrow> byte list" where
  "strncpy dest src n =
     (let s = take n (cstr src) in s @ replicate (n - length s) 0 @ drop n dest)"

section \<open>The value extractor\<close>

text \<open>
  The loop of \<open>validate_and_extract_value\<close> that replaces control characters, for
  \<open>i = 0 .. key_len - 1\<close> in this order.
\<close>

definition clean_step :: "nat \<Rightarrow> byte list \<Rightarrow> byte list" where
  "clean_step i output = (if output ! i < 32 then output[i := UNDERSCORE] else output)"

definition clean_loop :: "nat \<Rightarrow> byte list \<Rightarrow> byte list" where
  "clean_loop key_len output = fold clean_step [0..<key_len] output"

text \<open>
  \<open>validate_and_extract_value json_str key output output_size\<close> returns the boolean result
  of the C function together with the contents of the destination buffer after the call.
  The pointers \<open>key_start\<close> and \<open>key_end\<close> are offsets into \<open>json_str\<close>.
\<close>

definition validate_and_extract_value ::
  "byte list \<Rightarrow> byte list \<Rightarrow> byte list \<Rightarrow> nat \<Rightarrow> bool \<times> byte list" where
  "validate_and_extract_value json_str key output output_size =
     (let js = cstr json_str in
      case strstr js (cstr key) of
        None \<Rightarrow> (False, output)
      | Some k \<Rightarrow>
     (case strchr (drop k js) COLON of
        None \<Rightarrow> (False, output)
      | Some c \<Rightarrow>
     (case strchr (drop (k + c) js) DQUOTE of
        None \<Rightarrow> (False, output)
      | Some q \<Rightarrow>
     (let key_start = k + c + q + 1 in
      case strchr (drop key_start js) DQUOTE of
        None \<Rightarrow> (False, output)
      | Some key_len \<Rightarrow>
          if key_len \<ge> output_size then (False, output)
          else
            (let output1 = strncpy output (drop key_start js) key_len;
                 output2 = output1[key_len := 0];
                 output3 = clean_loop key_len output2
             in (True, output3))))))"


text \<open>
  What the cleaning loop does to one byte, in the words of the specification: a byte
  below 32 becomes an underscore, any other byte is kept.
\<close>

definition sanitize :: "byte \<Rightarrow> byte" where
  "sanitize b = (if b < 32 then UNDERSCORE else b)"

text \<open>A key or value between double quotes, as it appears in a message.\<close>

definition quoted :: "string \<Rightarrow> byte list" where
  "quoted cs = DQUOTE # bytes_of cs @ [DQUOTE]"

section \<open>The ESP-IDF environment\<close>

text \<open>
  The radio driver, the event dispatcher and the flash store are outside the repository.
  They are modelled by a state record and by two tapes that stand for what the
  environment does next: \<open>results\<close> holds the status codes of the coming ESP-IDF calls whose
  status the program inspects (an exhausted tape answers \<open>ESP_OK\<close>), and \<open>ticks\<close> holds what
  happens while a task waits on the event group: the dispatcher runs the registered handler
  on an event, or the wait times out. The field \<open>trace\<close> is a ghost log of the calls that the
  claims speak about.
\<close>

datatype esp_err =
  ESP_OK | ESP_FAIL | ESP_ERR_NVS_NO_FREE_PAGES | ESP_ERR_NVS_NEW_VERSION_FOUND
  | ESP_ERR_NVS_NOT_FOUND | ESP_ERR_NVS_INVALID_LENGTH

datatype event =
  WIFI_EVENT_STA_START | WIFI_EVENT_STA_DISCONNECTED | IP_EVENT_STA_GOT_IP | OTHER_WIFI_EVENT

datatype tick = Deliver event | Timeout

datatype wifi_mode = WIFI_MODE_NULL | WIFI_MODE_STA | WIFI_MODE_AP

datatype call =
  Call_connect_wifi "byte list" "byte list"
  | Ret_connect_wifi esp_err
  | Call_esp_wifi_connect
  | Call_wifi_init_softap
  | Call_xTaskCreate

record sys =
  retry_count :: int
  connected_bit :: bool
  nvs :: "string \<rightharpoonup> byte list"
  sta_ssid :: "byte list"
  sta_password :: "byte list"
  mode :: wifi_mode
  started :: bool
  results :: "esp_err list"
  ticks :: "tick list"
  trace :: "call list"

definition MAX_RETRY :: int where
  "MAX_RETRY = 5"

definition WIFI_NAME_SIZE :: nat where
  "WIFI_NAME_SIZE = 32"

definition WIFI_PASS_SIZE :: nat where
  "WIFI_PASS_SIZE = 64"

definition WIFI_SSID_KEY :: string where
  "WIFI_SSID_KEY = ''wifi_ssid''"

definition WIFI_PASS_KEY :: string where
  "WIFI_PASS_KEY = ''wifi_pass''"

definition esp_result :: "sys \<Rightarrow> esp_err \<times> sys" where
  "esp_result s = (case results s of [] \<Rightarrow> (ESP_OK, s) | e # es \<Rightarrow> (e, s\<lparr>results := es\<rparr>))"

text \<open>\<open>ESP_ERROR_CHECK\<close> aborts the firmware on any status but \<open>ESP_OK\<close>; abort is \<open>None\<close>.\<close>

definition ESP_ERROR_CHECK :: "esp_err \<times> sys \<Rightarrow> sys option" where
  "ESP_ERROR_CHECK r = (if fst r = ESP_OK then Some (snd r) else None)"

text \<open>A driver call changes the state only when the driver reports success.\<close>

definition esp_call :: "(sys \<Rightarrow> sys) \<Rightarrow> sys \<Rightarrow> esp_err \<times> sys" where
  "esp_call effect s =
     (let (err, s1) = esp_result s in (err, if err = ESP_OK then effect s1 else s1))"

definition esp_wifi_stop :: "sys \<Rightarrow> esp_err \<times> sys" where
  "esp_wifi_stop = esp_call (\<lambda>s. s\<lparr>started := False\<rparr>)"

definition esp_wifi_start :: "sys \<Rightarrow> esp_err \<times> sys" where
  "esp_wifi_start = esp_call (\<lambda>s. s\<lparr>started := True\<rparr>)"

definition esp_wifi_set_mode :: "wifi_mode \<Rightarrow> sys \<Rightarrow> esp_err \<times> sys" where
  "esp_wifi_set_mode m = esp_call (\<lambda>s. s\<lparr>mode := m\<rparr>)"

definition esp_wifi_set_config_sta :: "byte list \<Rightarrow> byte list \<Rightarrow> sys \<Rightarrow> esp_err \<times> sys" where
  "esp_wifi_set_config_sta ssid password =
     esp_call (\<lambda>s. s\<lparr>sta_ssid := ssid, sta_password := password\<rparr>)"

text \<open>
  The program discards the status of \<open>esp_wifi_connect\<close>; the call is logged as a connection
  attempt of the radio.
\<close>

definition esp_wifi_connect :: "sys \<Rightarrow> sys" where
  "esp_wifi_connect s = s\<lparr>trace := trace s @ [Call_esp_wifi_connect]\<rparr>"

text \<open>
  The store keeps the C string that \<open>nvs_set_str\<close> is given. \<open>nvs_get_str\<close> fails when the
  key is absent or when the string with its terminator does not fit the given size, and
  otherwise writes the string and its terminator at the start of the output buffer.
\<close>

definition nvs_set_str :: "string \<Rightarrow> byte list \<Rightarrow> sys \<Rightarrow> esp_err \<times> sys" where
  "nvs_set_str key val = esp_call (\<lambda>s. s\<lparr>nvs := (nvs s)(key \<mapsto> cstr val)\<rparr>)"

definition nvs_commit :: "sys \<Rightarrow> esp_err \<times> sys" where
  "nvs_commit = esp_result"

definition nvs_get_str :: "string \<Rightarrow> byte list \<Rightarrow> nat \<Rightarrow> sys \<Rightarrow> esp_err \<times> byte list \<times> sys" where
  "nvs_get_str key out len s =
     (case nvs s key of
        None \<Rightarrow> (ESP_ERR_NVS_NOT_FOUND, out, s)
      | Some v \<Rightarrow>
          if len < length v + 1 then (ESP_ERR_NVS_INVALID_LENGTH, out, s)
          else (let (err, s1) = esp_result s
                in (err, if err = ESP_OK then v @ 0 # drop (length v + 1) out else out, s1)))"

definition nvs_flash_init :: "sys \<Rightarrow> esp_err \<times> sys" where
  "nvs_flash_init = esp_result"

definition nvs_flash_erase :: "sys \<Rightarrow> esp_err \<times> sys" where
  "nvs_flash_erase = esp_call (\<lambda>s. s\<lparr>nvs := Map.empty\<rparr>)"

definition nvs_open :: "sys \<Rightarrow> esp_err \<times> sys" where
  "nvs_open = esp_result"

section \<open>The credential store\<close>

definition nvs_init :: "sys \<Rightarrow> (bool \<times> sys) option" where
  "nvs_init s =
     (let (err, s1) = nvs_flash_init s in
      do {
        (err, s2) \<leftarrow>
          (if err = ESP_ERR_NVS_NO_FREE_PAGES \<or> err = ESP_ERR_NVS_NEW_VERSION_FOUND
           then do { s' \<leftarrow> ESP_ERROR_CHECK (nvs_flash_erase s1); Some (nvs_flash_init s') }
           else Some (err, s1));
        s3 \<leftarrow> ESP_ERROR_CHECK (err, s2);
        let (err, s4) = nvs_open s3;
        if err \<noteq> ESP_OK then Some (False, s4) else Some (True, s4)
      })"

definition nvs_write_wifi_data :: "byte list \<Rightarrow> byte list \<Rightarrow> sys \<Rightarrow> bool \<times> sys" where
  "nvs_write_wifi_data ssid password s =
     (let (err, s1) = nvs_set_str WIFI_SSID_KEY ssid s in
      if err \<noteq> ESP_OK then (False, s1)
      else
        (let (err, s2) = nvs_set_str WIFI_PASS_KEY password s1 in
         if err \<noteq> ESP_OK then (False, s2)
         else
           (let (err, s3) = nvs_commit s2 in
            if err \<noteq> ESP_OK then (False, s3) else (True, s3))))"

definition nvs_read_wifi_data ::
  "byte list \<Rightarrow> byte list \<Rightarrow> sys \<Rightarrow> bool \<times> byte list \<times> byte list \<times> sys" where
  "nvs_read_wifi_data ssid_out pass_out s =
     (let (err, ssid_out1, s1) = nvs_get_str WIFI_SSID_KEY ssid_out WIFI_NAME_SIZE s in
      if err \<noteq> ESP_OK then (False, ssid_out1, pass_out, s1)
      else
        (let (err, pass_out1, s2) = nvs_get_str WIFI_PASS_KEY pass_out WIFI_PASS_SIZE s1 in
         if err \<noteq> ESP_OK then (False, ssid_out1, pass_out1, s2)
         else (True, ssid_out1, pass_out1, s2)))"

section \<open>The connection state machine\<close>

text \<open>
  \<open>wifi_event_handler\<close>. In the branch of the address event the handler reads the station
  configuration back from the driver and saves it; the name is the C string that starts
  at the 32-byte name field, which the password field follows in the configuration
  structure.
\<close>

definition wifi_event_handler :: "event \<Rightarrow> sys \<Rightarrow> sys" where
  "wifi_event_handler ev s =
     (case ev of
        WIFI_EVENT_STA_START \<Rightarrow> esp_wifi_connect s
      | WIFI_EVENT_STA_DISCONNECTED \<Rightarrow>
          if retry_count s < MAX_RETRY
          then (let s1 = esp_wifi_connect s in s1\<lparr>retry_count := retry_count s1 + 1\<rparr>)
          else s\<lparr>connected_bit := False\<rparr>
      | IP_EVENT_STA_GOT_IP \<Rightarrow>
          (let (saved, s1) = nvs_write_wifi_data (sta_ssid s @ sta_password s) (sta_password s) s
           in s1\<lparr>connected_bit := True, retry_count := 0\<rparr>)
      | OTHER_WIFI_EVENT \<Rightarrow> s)"

text \<open>
  \<open>xEventGroupWaitBits\<close> on the connected bit, without clearing it: the call returns at once
  when the bit is set, and otherwise lets the dispatcher run until the bit is set or the
  timeout comes. The result is the bit at the return.
\<close>

fun wait_bits :: "tick list \<Rightarrow> sys \<Rightarrow> bool \<times> sys" where
  "wait_bits [] s = (connected_bit s, s\<lparr>ticks := []\<rparr>)"
| "wait_bits (t # ts) s =
     (if connected_bit s then (True, s\<lparr>ticks := t # ts\<rparr>)
      else case t of
             Timeout \<Rightarrow> (False, s\<lparr>ticks := ts\<rparr>)
           | Deliver ev \<Rightarrow> wait_bits ts (wifi_event_handler ev s))"

definition xEventGroupWaitBits :: "sys \<Rightarrow> bool \<times> sys" where
  "xEventGroupWaitBits s = wait_bits (ticks s) s"

text \<open>
  \<open>connect_wifi\<close>, in two parts: the configuration and start of the radio, up to the moment
  the connect handshake begins, and the wait for its outcome.
\<close>

definition connect_wifi_begin :: "byte list \<Rightarrow> byte list \<Rightarrow> sys \<Rightarrow> sys option" where
  "connect_wifi_begin ssid password s =
     (let cfg_ssid = strncpy (replicate 32 0) ssid 32;
          cfg_password = strncpy (replicate 64 0) password 64
      in do {
        s1 \<leftarrow> ESP_ERROR_CHECK (esp_wifi_stop s);
        s2 \<leftarrow> ESP_ERROR_CHECK (esp_wifi_set_mode WIFI_MODE_STA s1);
        s3 \<leftarrow> ESP_ERROR_CHECK (esp_wifi_set_config_sta cfg_ssid cfg_password s2);
        ESP_ERROR_CHECK (esp_wifi_start s3)
      })"

definition connect_wifi :: "byte list \<Rightarrow> byte list \<Rightarrow> sys \<Rightarrow> (esp_err \<times> sys) option" where
  "connect_wifi ssid password s =
     do {
       s4 \<leftarrow> connect_wifi_begin ssid password
               (s\<lparr>trace := trace s @ [Call_connect_wifi (cstr ssid) (cstr password)]\<rparr>);
       let (bits, s5) = xEventGroupWaitBits s4;
       if bits then Some (ESP_OK, s5\<lparr>trace := trace s5 @ [Ret_connect_wifi ESP_OK]\<rparr>)
       else do {
         s6 \<leftarrow> ESP_ERROR_CHECK (esp_wifi_stop s5);
         Some (ESP_FAIL, s6\<lparr>trace := trace s6 @ [Ret_connect_wifi ESP_FAIL]\<rparr>)
       }
     }"

definition wifi_init_softap :: "sys \<Rightarrow> sys option" where
  "wifi_init_softap s =
     do {
       s1 \<leftarrow> ESP_ERROR_CHECK (esp_result (s\<lparr>trace := trace s @ [Call_wifi_init_softap]\<rparr>));
       s2 \<leftarrow> ESP_ERROR_CHECK (esp_result s1);
       s3 \<leftarrow> ESP_ERROR_CHECK (esp_result s2);
       s4 \<leftarrow> ESP_ERROR_CHECK (esp_wifi_set_mode WIFI_MODE_AP s3);
       s5 \<leftarrow> ESP_ERROR_CHECK (esp_result s4);
       ESP_ERROR_CHECK (esp_wifi_start s5)
     }"

section \<open>The provisioning session\<close>

datatype response =
  SSID_RECEIVED | INVALID_SSID | CONNECTED_SAVED | CONNECTED_NOT_SAVED | CONNECT_FAILED
  | INVALID_PASSWORD

definition response_text :: "response \<Rightarrow> string" where
  "response_text r =
     (case r of
        SSID_RECEIVED \<Rightarrow> ''SSID received. Waiting for password...''
      | INVALID_SSID \<Rightarrow> ''Invalid or missing SSID information!''
      | CONNECTED_SAVED \<Rightarrow> ''Connected to the network and information saved.''
      | CONNECTED_NOT_SAVED \<Rightarrow> ''Connected but could not save information!''
      | CONNECT_FAILED \<Rightarrow> ''Failed to connect to the network. Please check the information.''
      | INVALID_PASSWORD \<Rightarrow> ''Invalid or missing password information!'') @ [CHR 0x0A]"

text \<open>The local variables of \<open>tcp_server_task\<close> that live across messages and clients.\<close>

record session =
  ssid_received :: bool
  ssid :: "byte list"
  password :: "byte list"

definition session_start :: session where
  "session_start =
     \<lparr>ssid_received = False, ssid = replicate WIFI_NAME_SIZE 0,
      password = replicate WIFI_PASS_SIZE 0\<rparr>"

definition WIFI_NAME_FIELD :: "byte list" where
  "WIFI_NAME_FIELD = quoted ''wifi_name''"

definition WIFI_PASSWORD_FIELD :: "byte list" where
  "WIFI_PASSWORD_FIELD = quoted ''wifi_password''"

text \<open>
  The body of the communication loop for one received block \<open>rx\<close> of \<open>len > 0\<close> bytes: the
  block is terminated in \<open>rx_buffer\<close> and handled according to the phase.
\<close>

definition handle_message ::
  "byte list \<Rightarrow> session \<Rightarrow> sys \<Rightarrow> (response \<times> session \<times> sys) option" where
  "handle_message rx sess s =
     (let rx_buffer = rx @ [0] in
      if \<not> ssid_received sess then
        (let (found, ssid1) =
               validate_and_extract_value rx_buffer WIFI_NAME_FIELD (ssid sess) WIFI_NAME_SIZE
         in if found then Some (SSID_RECEIVED, sess\<lparr>ssid := ssid1, ssid_received := True\<rparr>, s)
            else Some (INVALID_SSID, sess\<lparr>ssid := ssid1\<rparr>, s))
      else
        (let (found, password1) =
               validate_and_extract_value rx_buffer WIFI_PASSWORD_FIELD (password sess)
                 WIFI_PASS_SIZE
         in if found then
              do {
                (err, s1) \<leftarrow> connect_wifi (ssid sess) password1 s;
                if err = ESP_OK then
                  (let (saved, s2) = nvs_write_wifi_data (ssid sess) password1 s1
                   in if saved
                      then Some (CONNECTED_SAVED,
                                 sess\<lparr>password := password1, ssid_received := False\<rparr>, s2)
                      else Some (CONNECTED_NOT_SAVED,
                                 sess\<lparr>password := password1, ssid_received := False\<rparr>, s2))
                else Some (CONNECT_FAILED,
                           sess\<lparr>password := password1, ssid_received := False\<rparr>, s1)
              }
            else Some (INVALID_PASSWORD, sess\<lparr>password := password1\<rparr>, s)))"

text \<open>
  The communication loop with one client: the blocks that \<open>recv\<close> returns, in order. The
  loop ends when the peer closes the stream or a read fails (\<open>len <= 0\<close>), which is the end
  of the list or an empty block. The responses sent are collected in order.
\<close>

fun serve_client ::
  "byte list list \<Rightarrow> session \<Rightarrow> sys \<Rightarrow> (response list \<times> session \<times> sys) option" where
  "serve_client [] sess s = Some ([], sess, s)"
| "serve_client (rx # rest) sess s =
     (if length rx \<le> 0 then Some ([], sess, s)
      else do {
        (r, sess1, s1) \<leftarrow> handle_message rx sess s;
        (rs, sess2, s2) \<leftarrow> serve_client rest sess1 s1;
        Some (r # rs, sess2, s2)
      })"

section \<open>Start of the application\<close>

text \<open>
  \<open>app_main\<close>, in two parts: the initialisation of store, event group, network stack and
  driver, and the choice between station and access-point mode with the start of the
  server task.
\<close>

definition app_main_init :: "sys \<Rightarrow> (bool \<times> sys) option" where
  "app_main_init s =
     do {
       (ok, s1) \<leftarrow> nvs_init s;
       if \<not> ok then Some (False, s1)
       else do {
         let s2 = s1\<lparr>connected_bit := False\<rparr>;
         s3 \<leftarrow> ESP_ERROR_CHECK (esp_result s2);
         s4 \<leftarrow> ESP_ERROR_CHECK (esp_result s3);
         s5 \<leftarrow> ESP_ERROR_CHECK (esp_result s4);
         s6 \<leftarrow> ESP_ERROR_CHECK (esp_result s5);
         s7 \<leftarrow> ESP_ERROR_CHECK (esp_result s6);
         Some (True, s7)
       }
     }"

definition app_main_wifi :: "sys \<Rightarrow> sys option" where
  "app_main_wifi s =
     (let (found, ssid1, password1, s1) =
            nvs_read_wifi_data (replicate 32 0) (replicate 64 0) s
      in do {
        s3 \<leftarrow>
          (if found then
             do {
               (err, s2) \<leftarrow> connect_wifi ssid1 password1 s1;
               if err = ESP_OK then Some s2 else wifi_init_softap s2
             }
           else wifi_init_softap s1);
        Some (s3\<lparr>trace := trace s3 @ [Call_xTaskCreate]\<rparr>)
      })"

definition app_main :: "sys \<Rightarrow> sys option" where
  "app_main s =
     do {
       (ok, s1) \<leftarrow> app_main_init s;
       if \<not> ok then Some s1 else app_main_wifi s1
     }"

text \<open>The state at power-on: the static initialisers of the program, an empty store.\<close>

definition power_on :: sys where
  "power_on =
     \<lparr>retry_count = 0, connected_bit = False, nvs = Map.empty,
      sta_ssid = replicate 32 0, sta_password = replicate 64 0,
      mode = WIFI_MODE_NULL, started = False, results = [], ticks = [], trace = []\<rparr>"

section \<open>Scenarios\<close>

text \<open>
  Inputs of the scenarios of the specification: a message with one quoted field, a session
  that holds the name \<open>Home\<close> and waits for the secret, a store that holds a credential, a
  network that answers the first connection attempt with an address, and a network that
  never answers.
\<close>

definition one_field :: "string \<Rightarrow> string \<Rightarrow> byte list" where
  "one_field k v = bytes_of ''{'' @ quoted k @ COLON # quoted v @ bytes_of ''}''"

definition home_session :: session where
  "home_session =
     \<lparr>ssid_received = True, ssid = bytes_of ''Home'' @ replicate 28 0,
      password = replicate 64 0\<rparr>"

definition network_answers :: "tick list" where
  "network_answers = [Deliver WIFI_EVENT_STA_START, Deliver IP_EVENT_STA_GOT_IP]"

definition network_silent :: "tick list" where
  "network_silent =
     Deliver WIFI_EVENT_STA_START # replicate 6 (Deliver WIFI_EVENT_STA_DISCONNECTED) @ [Timeout]"


section \<open>Predicates of the specification on buffers\<close>

text \<open>
  \<open>first_match s key a t\<close>: the string \<open>s\<close> is \<open>a\<close> followed by \<open>t\<close>, the key is a prefix of
  \<open>t\<close> and of no earlier suffix of \<open>s\<close>; that is, the first occurrence of the key in \<open>s\<close>
  starts where \<open>t\<close> starts.
\<close>

definition first_match :: "byte list \<Rightarrow> byte list \<Rightarrow> byte list \<Rightarrow> byte list \<Rightarrow> bool" where
  "first_match s key a t \<longleftrightarrow>
     s = a @ t \<and> prefix key t \<and> list_all (\<lambda>j. \<not> prefix key (drop j s)) [0..<length a]"

text \<open>
  \<open>has_pattern key buf\<close>: the buffer contains the key, immediately followed by a colon and
  a double quote, and a closing double quote somewhere after: the contiguous pattern
  \<open>key:"value"\<close> of the specification, for some value.
\<close>

definition has_pattern :: "byte list \<Rightarrow> byte list \<Rightarrow> bool" where
  "has_pattern key buf =
     list_ex (\<lambda>t. prefix (key @ [COLON, DQUOTE]) t \<and> DQUOTE \<in> set (drop (length key + 2) t))
       (suffixes buf)"

text \<open>
  \<open>has_markers key buf\<close>: the buffer contains the key and, from the first byte of that
  occurrence on, a colon, a double quote and a second double quote in this order, with
  any bytes between them.
\<close>

definition has_markers :: "byte list \<Rightarrow> byte list \<Rightarrow> bool" where
  "has_markers key buf =
     list_ex (\<lambda>t. prefix key t \<and> subseq [COLON, DQUOTE, DQUOTE] t) (suffixes buf)"

text \<open>
  The states the system can be in: any state at program start, where the static
  initialiser has set the retry counter to 0, and every state that follows by a run of
  \<open>app_main\<close>, by the dispatcher running the handler on an event, by a connection request,
  by a handled message, or by the environment queueing results and events.
\<close>

inductive reachable :: "sys \<Rightarrow> bool" where
  start: "retry_count s = 0 \<Longrightarrow> reachable s"
| boot: "reachable s \<Longrightarrow> app_main s = Some s' \<Longrightarrow> reachable s'"
| event: "reachable s \<Longrightarrow> reachable (wifi_event_handler ev s)"
| request: "reachable s \<Longrightarrow> connect_wifi nm pw s = Some (err, s') \<Longrightarrow> reachable s'"
| message: "reachable s \<Longrightarrow> handle_message rx sess s = Some (r, sess', s') \<Longrightarrow> reachable s'"
| environment: "reachable s \<Longrightarrow> reachable (s\<lparr>results := rs, ticks := ts\<rparr>)"

text \<open>The number of connection attempts the radio was asked to make so far.\<close>

definition attempts :: "sys \<Rightarrow> nat" where
  "attempts s = count_list (trace s) Call_esp_wifi_connect"

text \<open>
  \<open>clean_field n buf\<close>: an array of \<open>n\<close> bytes that holds a terminated string with no byte
  below 32. \<open>session_ok\<close>: the name and password buffers of the session are such fields.
\<close>

definition clean_field :: "nat \<Rightarrow> byte list \<Rightarrow> bool" where
  "clean_field n buf \<longleftrightarrow>
     length buf = n \<and> length (cstr buf) < n \<and> list_all (\<lambda>b. 32 \<le> b) (cstr buf)"

definition session_ok :: "session \<Rightarrow> bool" where
  "session_ok sess \<longleftrightarrow>
     clean_field WIFI_NAME_SIZE (ssid sess) \<and> clean_field WIFI_PASS_SIZE (password sess)"

text \<open>The credential record in the store: both fields, when both are present.\<close>

definition stored :: "sys \<Rightarrow> (byte list \<times> byte list) option" where
  "stored s =
     (case nvs s WIFI_SSID_KEY of
        None \<Rightarrow> None
      | Some nm \<Rightarrow> (case nvs s WIFI_PASS_KEY of None \<Rightarrow> None | Some pw \<Rightarrow> Some (nm, pw)))"

section \<open>Properties of the C library functions\<close>

lemma cstr_no_nul: "0 \<notin> set (cstr bs)"
  unfolding cstr_def by (induction bs) auto

lemma cstr_id: "0 \<notin> set bs \<Longrightarrow> cstr bs = bs"
  unfolding cstr_def by (induction bs) auto

lemma strchr_None_iff: "strchr s c = None \<longleftrightarrow> c \<notin> set s"
  by (induction s) auto

lemma strchr_first: "c \<notin> set u \<Longrightarrow> strchr (u @ c # w) c = Some (length u)"
  by (induction u) auto

lemma strchr_SomeD:
  "strchr s c = Some n \<Longrightarrow> \<exists>w. s = take n s @ c # w \<and> c \<notin> set (take n s) \<and> n < length s"
proof (induction s arbitrary: n)
  case Nil
  then show ?case by simp
next
  case (Cons x xs)
  show ?case
  proof (cases "x = c")
    case True
    with Cons.prems show ?thesis by simp
  next
    case False
    with Cons.prems obtain m where m: "strchr xs c = Some m" "n = Suc m"
      by auto
    from Cons.IH [OF m(1)] False m(2) show ?thesis
      by auto
  qed
qed

lemma strstr_None_iff: "strstr s k = None \<longleftrightarrow> \<not> sublist k s"
  by (induction s) (auto simp: sublist_Cons_right)

lemma strstr_SomeD:
  "strstr s k = Some i \<Longrightarrow>
     i \<le> length s \<and> prefix k (drop i s) \<and> (\<forall>j<i. \<not> prefix k (drop j s))"
proof (induction s arbitrary: i)
  case Nil
  then show ?case by (auto split: if_splits)
next
  case (Cons x xs)
  show ?case
  proof (cases "prefix k (x # xs)")
    case True
    with Cons.prems show ?thesis by simp
  next
    case False
    with Cons.prems obtain m where m: "strstr xs k = Some m" "i = Suc m"
      by auto
    from Cons.IH [OF m(1)] False m(2) show ?thesis
      by (auto simp: less_Suc_eq_0_disj)
  qed
qed

lemma strstr_first:
  assumes "prefix k t" and "\<forall>j<length a. \<not> prefix k (drop j (a @ t))"
  shows "strstr (a @ t) k = Some (length a)"
  using assms
proof (induction a)
  case Nil
  then show ?case by (cases t) auto
next
  case (Cons x a)
  from Cons.prems(2) have "\<not> prefix k (x # a @ t)"
    by (metis drop0 length_greater_0_conv list.distinct(1) append_Cons)
  moreover from Cons.prems(2) have "\<forall>j<length a. \<not> prefix k (drop j (a @ t))"
    by (metis Suc_less_eq drop_Suc_Cons length_Cons append_Cons)
  ultimately show ?case
    using Cons.IH [OF Cons.prems(1)] by simp
qed

lemma clean_loop_eq:
  "n \<le> length out \<Longrightarrow> clean_loop n out = map sanitize (take n out) @ drop n out"
proof (induction n)
  case 0
  then show ?case by (simp add: clean_loop_def)
next
  case (Suc n)
  then have n: "n < length out" by simp
  have "clean_loop (Suc n) out = clean_step n (clean_loop n out)"
    by (simp add: clean_loop_def)
  also have "clean_loop n out = map sanitize (take n out) @ drop n out"
    using Suc by simp
  also have "clean_step n (map sanitize (take n out) @ drop n out)
      = map sanitize (take n out) @ sanitize (out ! n) # drop (Suc n) out"
    using n
    by (simp add: clean_step_def nth_append sanitize_def list_update_append
        Cons_nth_drop_Suc [symmetric] )
  also have "\<dots> = map sanitize (take (Suc n) out) @ drop (Suc n) out"
    using n by (simp add: take_Suc_conv_app_nth)
  finally show ?case .
qed

section \<open>Properties of the value extractor\<close>

lemma COLON_neq_DQUOTE: "COLON \<noteq> DQUOTE"
  by (simp add: COLON_def DQUOTE_def)

lemma validate_decomp:
  assumes js: "cstr json_str = a @ b @ COLON # c @ DQUOTE # v @ DQUOTE # post"
    and k: "prefix (cstr key) (b @ COLON # c @ DQUOTE # v @ DQUOTE # post)"
    and first: "\<forall>j<length a. \<not> prefix (cstr key) (drop j (cstr json_str))"
    and b: "COLON \<notin> set b" and c: "DQUOTE \<notin> set c" and v: "DQUOTE \<notin> set v"
  shows "validate_and_extract_value json_str key output output_size =
           (if length v \<ge> output_size then (False, output)
            else (True, clean_loop (length v)
                          ((v @ drop (length v) output)[length v := 0])))"
proof -
  let ?js = "cstr json_str"
  let ?t = "b @ COLON # c @ DQUOTE # v @ DQUOTE # post"
  have s1: "strstr ?js (cstr key) = Some (length a)"
    using strstr_first [OF k, of a] first js by simp
  have d1: "drop (length a) ?js = ?t"
    using js by simp
  have s2: "strchr (drop (length a) ?js) COLON = Some (length b)"
    unfolding d1 using b by (rule strchr_first)
  have d2: "drop (length a + length b) ?js = (COLON # c) @ DQUOTE # v @ DQUOTE # post"
    using js by simp
  have s3: "strchr (drop (length a + length b) ?js) DQUOTE = Some (Suc (length c))"
    unfolding d2 using strchr_first [of DQUOTE "COLON # c"] c COLON_neq_DQUOTE by simp
  have d3: "drop (length a + length b + Suc (length c) + 1) ?js = v @ DQUOTE # post"
    using js by simp
  have s4: "strchr (v @ DQUOTE # post) DQUOTE = Some (length v)"
    using v by (rule strchr_first)
  have "0 \<notin> set ?js" by (rule cstr_no_nul)
  then have "0 \<notin> set (v @ DQUOTE # post)" unfolding js by simp
  then have cv: "cstr (v @ DQUOTE # post) = v @ DQUOTE # post"
    by (rule cstr_id)
  have cp: "strncpy output (v @ DQUOTE # post) (length v) = v @ drop (length v) output"
    by (simp add: strncpy_def cv)
  show ?thesis
    unfolding validate_and_extract_value_def Let_def s1 option.case s2 s3 d3 s4 cp
    by simp
qed

lemma validate_foundD:
  assumes "fst (validate_and_extract_value json_str key output output_size)"
  shows "\<exists>a b c v post.
           cstr json_str = a @ b @ COLON # c @ DQUOTE # v @ DQUOTE # post \<and>
           prefix (cstr key) (b @ COLON # c @ DQUOTE # v @ DQUOTE # post) \<and>
           (\<forall>j<length a. \<not> prefix (cstr key) (drop j (cstr json_str))) \<and>
           COLON \<notin> set b \<and> DQUOTE \<notin> set c \<and> DQUOTE \<notin> set v \<and>
           length v < output_size"
proof -
  let ?js = "cstr json_str"
  from assms obtain k where s1: "strstr ?js (cstr key) = Some k"
    by (auto simp: validate_and_extract_value_def Let_def split: option.splits)
  from assms s1 obtain ci where s2: "strchr (drop k ?js) COLON = Some ci"
    by (auto simp: validate_and_extract_value_def Let_def split: option.splits)
  from assms s1 s2 obtain q where s3: "strchr (drop (k + ci) ?js) DQUOTE = Some q"
    by (auto simp: validate_and_extract_value_def Let_def split: option.splits)
  from assms s1 s2 s3 obtain n where
    s4: "strchr (drop (k + ci + q + 1) ?js) DQUOTE = Some n"
    by (auto simp: validate_and_extract_value_def Let_def split: option.splits)
  from assms s1 s2 s3 s4 have n: "n < output_size"
    by (auto simp: validate_and_extract_value_def Let_def split: if_splits)
  from strstr_SomeD [OF s1] have k: "k \<le> length ?js" "prefix (cstr key) (drop k ?js)"
    "\<forall>j<k. \<not> prefix (cstr key) (drop j ?js)" by auto
  define a where "a = take k ?js"
  have a: "?js = a @ drop k ?js" "length a = k"
    using k(1) by (simp_all add: a_def)
  from strchr_SomeD [OF s2] obtain w1 where
    w1: "drop k ?js = take ci (drop k ?js) @ COLON # w1" "COLON \<notin> set (take ci (drop k ?js))"
      "ci < length (drop k ?js)" by blast
  define b where "b = take ci (drop k ?js)"
  have b: "drop k ?js = b @ COLON # w1" "COLON \<notin> set b" "length b = ci"
    using w1 by (simp_all add: b_def)
  have d2: "drop (k + ci) ?js = COLON # w1"
    using b(1) b(3) by (metis add.commute append_eq_conv_conj drop_drop)
  from strchr_SomeD [OF s3] obtain w2 where
    w2: "COLON # w1 = take q (COLON # w1) @ DQUOTE # w2" "DQUOTE \<notin> set (take q (COLON # w1))"
      "q < length (COLON # w1)" unfolding d2 by blast
  from w2(1) COLON_neq_DQUOTE obtain q' where q': "q = Suc q'"
    by (cases q) auto
  define c where "c = take q' w1"
  have c: "w1 = c @ DQUOTE # w2" "DQUOTE \<notin> set c" "length c = q'"
    using w2 q' by (simp_all add: c_def)
  have d3: "drop (k + ci + q + 1) ?js = w2"
  proof -
    have "?js = (a @ b @ COLON # c @ [DQUOTE]) @ w2"
      using a(1) b(1) c(1) by simp
    moreover have "length (a @ b @ COLON # c @ [DQUOTE]) = k + ci + q + 1"
      using a(2) b(3) c(3) q' by simp
    ultimately show ?thesis by (metis append_eq_conv_conj)
  qed
  from strchr_SomeD [OF s4] obtain post where
    w3: "w2 = take n w2 @ DQUOTE # post" "DQUOTE \<notin> set (take n w2)" "n < length w2"
    unfolding d3 by blast
  define v where "v = take n w2"
  have v: "w2 = v @ DQUOTE # post" "DQUOTE \<notin> set v" "length v = n"
    using w3 by (simp_all add: v_def)
  have t: "drop k ?js = b @ COLON # c @ DQUOTE # v @ DQUOTE # post"
    using b(1) c(1) v(1) by simp
  have "?js = a @ b @ COLON # c @ DQUOTE # v @ DQUOTE # post"
    using a(1) t by simp
  moreover have "prefix (cstr key) (b @ COLON # c @ DQUOTE # v @ DQUOTE # post)"
    using k(2) t by simp
  moreover have "\<forall>j<length a. \<not> prefix (cstr key) (drop j ?js)"
    using k(3) a(2) by simp
  ultimately show ?thesis
    using b(2) c(2) v(2) v(3) n by blast
qed

lemma written_value:
  assumes "length v < length output"
  shows "clean_loop (length v) ((v @ drop (length v) output)[length v := 0])
           = map sanitize v @ 0 # drop (Suc (length v)) output"
proof -
  have "(v @ drop (length v) output)[length v := 0] = v @ 0 # drop (Suc (length v)) output"
    using assms by (simp add: list_update_append Cons_nth_drop_Suc [symmetric])
  moreover have "clean_loop (length v) (v @ 0 # drop (Suc (length v)) output)
       = map sanitize v @ 0 # drop (Suc (length v)) output"
    by (subst clean_loop_eq) simp_all
  ultimately show ?thesis by simp
qed

lemma sanitize_no_nul: "0 \<notin> set v \<Longrightarrow> 0 \<notin> set (map sanitize v)"
  by (auto simp: sanitize_def UNDERSCORE_def)

lemma cstr_terminated: "0 \<notin> set v \<Longrightarrow> cstr (v @ 0 # w) = v"
  unfolding cstr_def by (induction v) auto

lemma validate_no_key:
  assumes "\<not> sublist (cstr key) (cstr json_str)"
  shows "validate_and_extract_value json_str key output output_size = (False, output)"
  using assms by (simp add: validate_and_extract_value_def strstr_None_iff [symmetric])

lemma validate_no_colon:
  assumes js: "cstr json_str = a @ t" and k: "prefix (cstr key) t"
    and first: "\<forall>j<length a. \<not> prefix (cstr key) (drop j (cstr json_str))"
    and t: "COLON \<notin> set t"
  shows "validate_and_extract_value json_str key output output_size = (False, output)"
proof -
  have "strstr (cstr json_str) (cstr key) = Some (length a)"
    using strstr_first [OF k, of a] first js by simp
  moreover have "strchr (drop (length a) (cstr json_str)) COLON = None"
    using t js by (simp add: strchr_None_iff)
  ultimately show ?thesis
    by (simp add: validate_and_extract_value_def)
qed

lemma validate_no_open:
  assumes js: "cstr json_str = a @ b @ COLON # r" and k: "prefix (cstr key) (b @ COLON # r)"
    and first: "\<forall>j<length a. \<not> prefix (cstr key) (drop j (cstr json_str))"
    and b: "COLON \<notin> set b" and r: "DQUOTE \<notin> set r"
  shows "validate_and_extract_value json_str key output output_size = (False, output)"
proof -
  have "strstr (cstr json_str) (cstr key) = Some (length a)"
    using strstr_first [OF k, of a] first js by simp
  moreover have "strchr (drop (length a) (cstr json_str)) COLON = Some (length b)"
    using strchr_first [OF b] js by simp
  moreover have "strchr (drop (length a + length b) (cstr json_str)) DQUOTE = None"
    using r js COLON_neq_DQUOTE by (simp add: strchr_None_iff)
  ultimately show ?thesis
    by (simp add: validate_and_extract_value_def)
qed

lemma validate_no_close:
  assumes js: "cstr json_str = a @ b @ COLON # c @ DQUOTE # r"
    and k: "prefix (cstr key) (b @ COLON # c @ DQUOTE # r)"
    and first: "\<forall>j<length a. \<not> prefix (cstr key) (drop j (cstr json_str))"
    and b: "COLON \<notin> set b" and c: "DQUOTE \<notin> set c" and r: "DQUOTE \<notin> set r"
  shows "validate_and_extract_value json_str key output output_size = (False, output)"
proof -
  have "strstr (cstr json_str) (cstr key) = Some (length a)"
    using strstr_first [OF k, of a] first js by simp
  moreover have "strchr (drop (length a) (cstr json_str)) COLON = Some (length b)"
    using strchr_first [OF b] js by simp
  moreover have "drop (length a + length b) (cstr json_str) = (COLON # c) @ DQUOTE # r"
    using js by simp
  then have "strchr (drop (length a + length b) (cstr json_str)) DQUOTE = Some (Suc (length c))"
    using strchr_first [of DQUOTE "COLON # c"] c COLON_neq_DQUOTE by simp
  moreover have "drop (length a + length b + Suc (length c) + 1) (cstr json_str) = r"
    using js by simp
  then have "strchr (drop (length a + length b + Suc (length c) + 1) (cstr json_str)) DQUOTE = None"
    using r by (simp add: strchr_None_iff)
  ultimately show ?thesis
    by (simp add: validate_and_extract_value_def)
qed

lemma validate_too_long:
  assumes "cstr json_str = a @ b @ COLON # c @ DQUOTE # v @ DQUOTE # post"
    and "prefix (cstr key) (b @ COLON # c @ DQUOTE # v @ DQUOTE # post)"
    and "\<forall>j<length a. \<not> prefix (cstr key) (drop j (cstr json_str))"
    and "COLON \<notin> set b" and "DQUOTE \<notin> set c" and "DQUOTE \<notin> set v"
    and "output_size \<le> length v"
  shows "validate_and_extract_value json_str key output output_size = (False, output)"
  using validate_decomp [OF assms(1-6)] assms(7) by simp

lemma first_match_iff:
  "first_match s key a t \<longleftrightarrow>
     s = a @ t \<and> prefix key t \<and> (\<forall>j<length a. \<not> prefix key (drop j s))"
  by (auto simp: first_match_def list_all_iff)

lemma has_pattern_iff:
  "has_pattern key buf \<longleftrightarrow>
     (\<exists>pre v post. buf = pre @ key @ [COLON, DQUOTE] @ v @ [DQUOTE] @ post)"
proof
  assume "has_pattern key buf"
  then obtain t where t: "suffix t buf" "prefix (key @ [COLON, DQUOTE]) t"
    "DQUOTE \<in> set (drop (length key + 2) t)"
    by (auto simp: has_pattern_def list_ex_iff)
  from t(1) obtain pre where pre: "buf = pre @ t" by (auto simp: suffix_def)
  from t(2) obtain r where r: "t = (key @ [COLON, DQUOTE]) @ r" by (auto simp: prefix_def)
  then have "drop (length key + 2) t = r" by simp
  with t(3) obtain v post where "r = v @ DQUOTE # post"
    by (auto simp: in_set_conv_decomp)
  with pre r show "\<exists>pre v post. buf = pre @ key @ [COLON, DQUOTE] @ v @ [DQUOTE] @ post"
    by auto
next
  assume "\<exists>pre v post. buf = pre @ key @ [COLON, DQUOTE] @ v @ [DQUOTE] @ post"
  then obtain pre v post where b: "buf = pre @ key @ [COLON, DQUOTE] @ v @ [DQUOTE] @ post"
    by blast
  let ?t = "key @ [COLON, DQUOTE] @ v @ [DQUOTE] @ post"
  have "suffix ?t buf" using b by (simp add: suffix_def)
  moreover have "prefix (key @ [COLON, DQUOTE]) ?t" by simp
  moreover have "DQUOTE \<in> set (drop (length key + 2) ?t)" by simp
  ultimately show "has_pattern key buf"
    unfolding has_pattern_def list_ex_iff by (metis in_set_suffixes)
qed

lemma validate_cases:
  "validate_and_extract_value json_str key output output_size = (False, output) \<or>
   fst (validate_and_extract_value json_str key output output_size)"
  by (simp add: validate_and_extract_value_def Let_def split: option.splits)

lemma validate_not_found:
  "\<not> fst (validate_and_extract_value json_str key output output_size) \<Longrightarrow>
   validate_and_extract_value json_str key output output_size = (False, output)"
  using validate_cases [of json_str key "output" output_size] by blast

lemma validate_found_result:
  assumes "fst (validate_and_extract_value json_str key output output_size)"
    and "output_size \<le> length output"
  shows "\<exists>a b c v post.
           first_match (cstr json_str) (cstr key) a
             (b @ COLON # c @ DQUOTE # v @ DQUOTE # post) \<and>
           COLON \<notin> set b \<and> DQUOTE \<notin> set c \<and> DQUOTE \<notin> set v \<and> 0 \<notin> set v \<and>
           length v < output_size \<and>
           snd (validate_and_extract_value json_str key output output_size)
             = map sanitize v @ 0 # drop (Suc (length v)) output \<and>
           cstr (snd (validate_and_extract_value json_str key output output_size))
             = map sanitize v"
proof -
  from validate_foundD [OF assms(1)] obtain a b c v post where
    d: "cstr json_str = a @ b @ COLON # c @ DQUOTE # v @ DQUOTE # post"
      "prefix (cstr key) (b @ COLON # c @ DQUOTE # v @ DQUOTE # post)"
      "\<forall>j<length a. \<not> prefix (cstr key) (drop j (cstr json_str))"
      "COLON \<notin> set b" "DQUOTE \<notin> set c" "DQUOTE \<notin> set v" "length v < output_size"
    by blast
  from d(7) assms(2) have len: "length v < length output" by simp
  have r: "snd (validate_and_extract_value json_str key output output_size)
             = map sanitize v @ 0 # drop (Suc (length v)) output"
    using d(7) by (simp add: validate_decomp [OF d(1-6)] written_value [OF len])
  have "0 \<notin> set (cstr json_str)" by (rule cstr_no_nul)
  then have z: "0 \<notin> set v" unfolding d(1) by simp
  then have "cstr (map sanitize v @ 0 # drop (Suc (length v)) output) = map sanitize v"
    by (intro cstr_terminated sanitize_no_nul)
  moreover have "first_match (cstr json_str) (cstr key) a
      (b @ COLON # c @ DQUOTE # v @ DQUOTE # post)"
    using d(1-3) by (simp add: first_match_iff)
  ultimately show ?thesis using r d(4-7) z by metis
qed

lemma sanitize_ge: "32 \<le> sanitize b"
  by (auto simp: sanitize_def UNDERSCORE_def not_less)

lemma validate_clean_field:
  assumes "length output = n"
    and "clean_field n output"
  shows "clean_field n (snd (validate_and_extract_value json_str key output n))"
proof (cases "fst (validate_and_extract_value json_str key output n)")
  case False
  from validate_not_found [OF False] assms(2) show ?thesis by simp
next
  case True
  from assms(1) have "n \<le> length output" by simp
  from validate_found_result [OF True this] obtain v where
    v: "length v < n"
      "snd (validate_and_extract_value json_str key output n)
         = map sanitize v @ 0 # drop (Suc (length v)) output"
      "cstr (snd (validate_and_extract_value json_str key output n)) = map sanitize v"
    by blast
  have "length (map sanitize v @ 0 # drop (Suc (length v)) output) = n"
    using v(1) assms(1) by simp
  with v show ?thesis
    by (simp add: clean_field_def list_all_iff sanitize_ge)
qed

section \<open>Properties of the environment and of the state machine\<close>

lemma esp_result_eq:
  "esp_result s = (case results s of [] \<Rightarrow> ESP_OK | e # es \<Rightarrow> e, s\<lparr>results := tl (results s)\<rparr>)"
  by (cases "results s") (simp_all add: esp_result_def)

lemma esp_result_fields [simp]:
  "retry_count (snd (esp_result s)) = retry_count s"
  "connected_bit (snd (esp_result s)) = connected_bit s"
  "nvs (snd (esp_result s)) = nvs s"
  "sta_ssid (snd (esp_result s)) = sta_ssid s"
  "sta_password (snd (esp_result s)) = sta_password s"
  "mode (snd (esp_result s)) = mode s"
  "started (snd (esp_result s)) = started s"
  "ticks (snd (esp_result s)) = ticks s"
  "trace (snd (esp_result s)) = trace s"
  "results (snd (esp_result s)) = tl (results s)"
  by (simp_all add: esp_result_eq)

lemma esp_call_eq:
  "esp_call f s =
     (fst (esp_result s),
      if fst (esp_result s) = ESP_OK then f (snd (esp_result s)) else snd (esp_result s))"
  by (simp add: esp_call_def split: prod.splits)

lemma check_result_Some:
  "ESP_ERROR_CHECK (esp_result s) = Some s' \<longleftrightarrow>
     fst (esp_result s) = ESP_OK \<and> s' = snd (esp_result s)"
  by (auto simp: ESP_ERROR_CHECK_def)

lemma check_call_Some:
  "ESP_ERROR_CHECK (esp_call f s) = Some s' \<longleftrightarrow>
     fst (esp_result s) = ESP_OK \<and> s' = f (snd (esp_result s))"
  by (auto simp: ESP_ERROR_CHECK_def esp_call_eq)

lemmas driver_defs =
  esp_wifi_stop_def esp_wifi_start_def esp_wifi_set_mode_def esp_wifi_set_config_sta_def
  nvs_set_str_def nvs_commit_def nvs_flash_init_def nvs_flash_erase_def nvs_open_def

lemma esp_result_pairD:
  "esp_result s = (e, b) \<Longrightarrow> b = snd (esp_result s) \<and> e = fst (esp_result s)"
  by simp

lemma connect_wifi_begin_Some:
  assumes "connect_wifi_begin nm pw s = Some s'"
  shows "retry_count s' = retry_count s" "connected_bit s' = connected_bit s"
    "nvs s' = nvs s" "ticks s' = ticks s" "trace s' = trace s"
    "mode s' = WIFI_MODE_STA" "started s'"
    "sta_ssid s' = strncpy (replicate 32 0) nm 32"
    "sta_password s' = strncpy (replicate 64 0) pw 64"
  using assms
  by (auto simp: connect_wifi_begin_def Let_def driver_defs check_call_Some
      bind_eq_Some_conv)

lemma nvs_write_fields [simp]:
  "retry_count (snd (nvs_write_wifi_data a b s)) = retry_count s"
  "connected_bit (snd (nvs_write_wifi_data a b s)) = connected_bit s"
  "ticks (snd (nvs_write_wifi_data a b s)) = ticks s"
  "trace (snd (nvs_write_wifi_data a b s)) = trace s"
  "mode (snd (nvs_write_wifi_data a b s)) = mode s"
  "started (snd (nvs_write_wifi_data a b s)) = started s"
  "sta_ssid (snd (nvs_write_wifi_data a b s)) = sta_ssid s"
  "sta_password (snd (nvs_write_wifi_data a b s)) = sta_password s"
  by (simp_all add: nvs_write_wifi_data_def driver_defs esp_call_eq Let_def case_prod_beta)

lemma handler_bound:
  "0 \<le> retry_count s \<and> retry_count s \<le> MAX_RETRY \<Longrightarrow>
   0 \<le> retry_count (wifi_event_handler ev s) \<and> retry_count (wifi_event_handler ev s) \<le> MAX_RETRY"
  by (cases ev)
    (auto simp: wifi_event_handler_def esp_wifi_connect_def MAX_RETRY_def Let_def
      case_prod_beta)

lemma wait_bits_bound:
  "0 \<le> retry_count s \<and> retry_count s \<le> MAX_RETRY \<Longrightarrow>
   0 \<le> retry_count (snd (wait_bits ts s)) \<and> retry_count (snd (wait_bits ts s)) \<le> MAX_RETRY"
proof (induction ts arbitrary: s)
  case Nil
  then show ?case by simp
next
  case (Cons t ts)
  show ?case
  proof (cases t)
    case (Deliver ev)
    with Cons.IH [OF handler_bound [OF Cons.prems, of ev]] Cons.prems show ?thesis
      by simp
  next
    case Timeout
    with Cons.prems show ?thesis by simp
  qed
qed

lemma esp_wifi_stop_Some:
  assumes "ESP_ERROR_CHECK (esp_wifi_stop s) = Some s'"
  shows "retry_count s' = retry_count s" "connected_bit s' = connected_bit s"
    "nvs s' = nvs s" "ticks s' = ticks s" "trace s' = trace s"
    "mode s' = mode s" "sta_ssid s' = sta_ssid s" "sta_password s' = sta_password s"
  using assms by (auto simp: driver_defs check_call_Some)

lemma esp_wifi_stop_stopped:
  "ESP_ERROR_CHECK (esp_wifi_stop s) = Some s' \<Longrightarrow> \<not> started s'"
  by (auto simp: driver_defs check_call_Some)

lemma connect_wifi_bound:
  assumes "connect_wifi nm pw s = Some (err, s')"
    and "0 \<le> retry_count s \<and> retry_count s \<le> MAX_RETRY"
  shows "0 \<le> retry_count s' \<and> retry_count s' \<le> MAX_RETRY"
proof -
  from assms(1) obtain s4 where
    b: "connect_wifi_begin nm pw
          (s\<lparr>trace := trace s @ [Call_connect_wifi (cstr nm) (cstr pw)]\<rparr>) = Some s4"
    by (auto simp: connect_wifi_def bind_eq_Some_conv)
  have "retry_count s4 = retry_count s"
    using connect_wifi_begin_Some(1) [OF b] by simp
  with assms(2) have w: "0 \<le> retry_count (snd (xEventGroupWaitBits s4)) \<and>
      retry_count (snd (xEventGroupWaitBits s4)) \<le> MAX_RETRY"
    unfolding xEventGroupWaitBits_def by (intro wait_bits_bound) simp
  from assms(1) b w show ?thesis
    by (auto simp: connect_wifi_def bind_eq_Some_conv case_prod_beta split: if_splits
        dest: esp_wifi_stop_Some(1))
qed

lemma wifi_init_softap_Some:
  assumes "wifi_init_softap s = Some s'"
  shows "retry_count s' = retry_count s" "connected_bit s' = connected_bit s"
    "nvs s' = nvs s" "ticks s' = ticks s" "trace s' = trace s @ [Call_wifi_init_softap]"
    "mode s' = WIFI_MODE_AP" "started s'"
  using assms
  by (auto simp: wifi_init_softap_def driver_defs check_call_Some check_result_Some
      bind_eq_Some_conv)

lemma nvs_get_str_fields [simp]:
  "retry_count (snd (snd (nvs_get_str k out n s))) = retry_count s"
  "connected_bit (snd (snd (nvs_get_str k out n s))) = connected_bit s"
  "nvs (snd (snd (nvs_get_str k out n s))) = nvs s"
  "ticks (snd (snd (nvs_get_str k out n s))) = ticks s"
  "trace (snd (snd (nvs_get_str k out n s))) = trace s"
  by (simp_all add: nvs_get_str_def case_prod_beta Let_def split: option.splits)

lemma nvs_read_fields [simp]:
  "retry_count (snd (snd (snd (nvs_read_wifi_data a b s)))) = retry_count s"
  "connected_bit (snd (snd (snd (nvs_read_wifi_data a b s)))) = connected_bit s"
  "nvs (snd (snd (snd (nvs_read_wifi_data a b s)))) = nvs s"
  "ticks (snd (snd (snd (nvs_read_wifi_data a b s)))) = ticks s"
  "trace (snd (snd (snd (nvs_read_wifi_data a b s)))) = trace s"
  by (simp_all add: nvs_read_wifi_data_def case_prod_beta Let_def)

lemma nvs_init_Some:
  assumes "nvs_init s = Some (ok, s')"
  shows "retry_count s' = retry_count s" "ticks s' = ticks s" "trace s' = trace s"
  using assms
  by (auto simp: nvs_init_def driver_defs check_call_Some check_result_Some
      ESP_ERROR_CHECK_def esp_call_eq
      bind_eq_Some_conv case_prod_beta Let_def split: if_splits dest!: esp_result_pairD)

lemma app_main_init_Some:
  assumes "app_main_init s = Some (ok, s')"
  shows "retry_count s' = retry_count s" "ticks s' = ticks s" "trace s' = trace s"
  using assms
  by (auto simp: app_main_init_def check_result_Some
      bind_eq_Some_conv case_prod_beta Let_def split: if_splits dest: nvs_init_Some)

lemma app_main_wifi_bound:
  assumes "app_main_wifi s = Some s'"
    and "0 \<le> retry_count s \<and> retry_count s \<le> MAX_RETRY"
  shows "0 \<le> retry_count s' \<and> retry_count s' \<le> MAX_RETRY"
proof -
  let ?r = "nvs_read_wifi_data (replicate 32 0) (replicate 64 0) s"
  let ?s1 = "snd (snd (snd ?r))"
  have b1: "0 \<le> retry_count ?s1 \<and> retry_count ?s1 \<le> MAX_RETRY"
    using assms(2) by simp
  show ?thesis
  proof (cases "fst ?r")
    case True
    with assms(1) obtain err s2 where
      c: "connect_wifi (fst (snd ?r)) (fst (snd (snd ?r))) ?s1 = Some (err, s2)"
      by (auto simp: app_main_wifi_def case_prod_beta bind_eq_Some_conv)
    from connect_wifi_bound [OF c b1] have b2: "0 \<le> retry_count s2 \<and> retry_count s2 \<le> MAX_RETRY" .
    from assms(1) True c b2 show ?thesis
      by (auto simp: app_main_wifi_def case_prod_beta bind_eq_Some_conv split: if_splits
          dest: wifi_init_softap_Some(1))
  next
    case False
    with assms(1) b1 show ?thesis
      by (auto simp: app_main_wifi_def case_prod_beta bind_eq_Some_conv
          dest: wifi_init_softap_Some(1))
  qed
qed

lemma app_main_bound:
  assumes "app_main s = Some s'"
    and "0 \<le> retry_count s \<and> retry_count s \<le> MAX_RETRY"
  shows "0 \<le> retry_count s' \<and> retry_count s' \<le> MAX_RETRY"
  using assms
  by (auto simp: app_main_def bind_eq_Some_conv split: if_splits
      dest!: app_main_init_Some(1) dest: app_main_wifi_bound)

lemma handle_message_bound:
  assumes "handle_message rx sess s = Some (r, sess', s')"
    and "0 \<le> retry_count s \<and> retry_count s \<le> MAX_RETRY"
  shows "0 \<le> retry_count s' \<and> retry_count s' \<le> MAX_RETRY"
proof (cases "ssid_received sess \<and>
    fst (validate_and_extract_value (rx @ [0]) WIFI_PASSWORD_FIELD (password sess) WIFI_PASS_SIZE)")
  case False
  with assms show ?thesis
    by (auto simp: handle_message_def case_prod_beta Let_def split: if_splits)
next
  case True
  let ?pw = "snd (validate_and_extract_value (rx @ [0]) WIFI_PASSWORD_FIELD (password sess)
     WIFI_PASS_SIZE)"
  from True assms(1) obtain err s1 where
    c: "connect_wifi (ssid sess) ?pw s = Some (err, s1)"
    by (auto simp: handle_message_def case_prod_beta Let_def bind_eq_Some_conv)
  from connect_wifi_bound [OF c assms(2)]
  have b: "0 \<le> retry_count s1 \<and> retry_count s1 \<le> MAX_RETRY" .
  from True assms(1) c b show ?thesis
    by (auto simp: handle_message_def case_prod_beta Let_def split: if_splits)
qed

lemma reachable_bound:
  "reachable s \<Longrightarrow> 0 \<le> retry_count s \<and> retry_count s \<le> MAX_RETRY"
proof (induction rule: reachable.induct)
  case (start s)
  then show ?case by (simp add: MAX_RETRY_def)
next
  case (boot s s')
  from app_main_bound [OF boot.hyps(2) boot.IH] show ?case .
next
  case (event s ev)
  from handler_bound [OF event.IH] show ?case .
next
  case (request s nm pw err s')
  from connect_wifi_bound [OF request.hyps(2) request.IH] show ?case .
next
  case (message s rx sess r sess' s')
  from handle_message_bound [OF message.hyps(2) message.IH] show ?case .
next
  case (environment s rs ts)
  then show ?case by simp
qed

lemma disconnect_step:
  "wifi_event_handler WIFI_EVENT_STA_DISCONNECTED s =
     (if retry_count s < MAX_RETRY
      then s\<lparr>trace := trace s @ [Call_esp_wifi_connect], retry_count := retry_count s + 1\<rparr>
      else s\<lparr>connected_bit := False\<rparr>)"
  by (simp add: wifi_event_handler_def esp_wifi_connect_def Let_def)

lemma disconnects_keep_cleared:
  "\<not> connected_bit s \<Longrightarrow>
   \<not> connected_bit (fold wifi_event_handler (replicate n WIFI_EVENT_STA_DISCONNECTED) s)"
  by (induction n arbitrary: s) (simp_all add: disconnect_step)

lemma disconnect_run:
  "attempts (fold wifi_event_handler (replicate n WIFI_EVENT_STA_DISCONNECTED) s)
     = attempts s + min n (nat (MAX_RETRY - retry_count s)) \<and>
   (nat (MAX_RETRY - retry_count s) < n \<longrightarrow>
      \<not> connected_bit (fold wifi_event_handler (replicate n WIFI_EVENT_STA_DISCONNECTED) s))"
proof (induction n arbitrary: s)
  case 0
  then show ?case by simp
next
  case (Suc n)
  show ?case
  proof (cases "retry_count s < MAX_RETRY")
    case True
    let ?s1 = "s\<lparr>trace := trace s @ [Call_esp_wifi_connect], retry_count := retry_count s + 1\<rparr>"
    have a: "attempts ?s1 = Suc (attempts s)" by (simp add: attempts_def)
    have m: "nat (MAX_RETRY - retry_count ?s1) = nat (MAX_RETRY - retry_count s) - 1"
      by simp
    from True have p: "0 < nat (MAX_RETRY - retry_count s)" by simp
    from Suc.IH [of ?s1] True a m p show ?thesis
      by (auto simp: disconnect_step min_def)
  next
    case False
    then have z: "nat (MAX_RETRY - retry_count s) = 0" by simp
    from Suc.IH [of "s\<lparr>connected_bit := False\<rparr>"] False z
      disconnects_keep_cleared [of "s\<lparr>connected_bit := False\<rparr>" n]
    show ?thesis
      by (simp add: disconnect_step attempts_def)
  qed
qed

lemma got_ip_step:
  "retry_count (wifi_event_handler IP_EVENT_STA_GOT_IP s) = 0 \<and>
   connected_bit (wifi_event_handler IP_EVENT_STA_GOT_IP s)"
  by (simp add: wifi_event_handler_def case_prod_beta Let_def)

lemma handler_no_reset:
  "ev \<noteq> IP_EVENT_STA_GOT_IP \<Longrightarrow> retry_count s \<le> retry_count (wifi_event_handler ev s)"
  by (cases ev) (simp_all add: wifi_event_handler_def esp_wifi_connect_def Let_def)

lemma wait_bits_no_reset:
  "Deliver IP_EVENT_STA_GOT_IP \<notin> set ts \<Longrightarrow> retry_count s \<le> retry_count (snd (wait_bits ts s))"
proof (induction ts arbitrary: s)
  case Nil
  then show ?case by simp
next
  case (Cons t ts)
  show ?case
  proof (cases t)
    case (Deliver ev)
    with Cons.prems have ev: "ev \<noteq> IP_EVENT_STA_GOT_IP" and ts: "Deliver IP_EVENT_STA_GOT_IP \<notin> set ts"
      by auto
    from handler_no_reset [OF ev, of s] Cons.IH [OF ts, of "wifi_event_handler ev s"] Deliver
    show ?thesis by simp
  next
    case Timeout
    then show ?thesis by simp
  qed
qed

lemma handler_frame:
  "mode (wifi_event_handler ev s) = mode s"
  "started (wifi_event_handler ev s) = started s"
  "ticks (wifi_event_handler ev s) = ticks s"
  "sta_ssid (wifi_event_handler ev s) = sta_ssid s"
  "sta_password (wifi_event_handler ev s) = sta_password s"
  by (cases ev; simp add: wifi_event_handler_def esp_wifi_connect_def Let_def case_prod_beta)+

lemma handler_trace:
  "\<exists>mid. trace (wifi_event_handler ev s) = trace s @ mid \<and> set mid \<subseteq> {Call_esp_wifi_connect}"
  by (cases ev) (simp_all add: wifi_event_handler_def esp_wifi_connect_def Let_def case_prod_beta)

lemma wait_bits_frame:
  "mode (snd (wait_bits ts s)) = mode s \<and> started (snd (wait_bits ts s)) = started s \<and>
   connected_bit (snd (wait_bits ts s)) = fst (wait_bits ts s) \<and>
   (\<exists>mid. trace (snd (wait_bits ts s)) = trace s @ mid \<and> set mid \<subseteq> {Call_esp_wifi_connect})"
proof (induction ts arbitrary: s)
  case Nil
  then show ?case by simp
next
  case (Cons t ts)
  show ?case
  proof (cases "connected_bit s")
    case True
    then show ?thesis by simp
  next
    case False
    show ?thesis
    proof (cases t)
      case Timeout
      with False show ?thesis by simp
    next
      case (Deliver ev)
      from handler_trace [of ev s] obtain m1 where
        m1: "trace (wifi_event_handler ev s) = trace s @ m1" "set m1 \<subseteq> {Call_esp_wifi_connect}"
        by blast
      from Cons.IH [of "wifi_event_handler ev s"] obtain m2 where
        m2: "trace (snd (wait_bits ts (wifi_event_handler ev s)))
               = trace (wifi_event_handler ev s) @ m2" "set m2 \<subseteq> {Call_esp_wifi_connect}"
        by blast
      from m1 m2 have "trace (snd (wait_bits ts (wifi_event_handler ev s))) = trace s @ (m1 @ m2)"
        "set (m1 @ m2) \<subseteq> {Call_esp_wifi_connect}"
        by simp_all
      then have "\<exists>mid. trace (snd (wait_bits ts (wifi_event_handler ev s))) = trace s @ mid \<and>
          set mid \<subseteq> {Call_esp_wifi_connect}"
        by blast
      with Cons.IH [of "wifi_event_handler ev s"] False Deliver show ?thesis
        by (simp add: handler_frame)
    qed
  qed
qed

lemma connect_wifi_Some:
  assumes "connect_wifi nm pw s = Some (err, s')"
  shows "(err = ESP_OK \<or> err = ESP_FAIL) \<and>
    (\<exists>mid. trace s' = trace s @ Call_connect_wifi (cstr nm) (cstr pw) # mid @ [Ret_connect_wifi err]
           \<and> set mid \<subseteq> {Call_esp_wifi_connect}) \<and>
    mode s' = WIFI_MODE_STA \<and>
    (err = ESP_OK \<longrightarrow> started s' \<and> connected_bit s') \<and>
    (err = ESP_FAIL \<longrightarrow> \<not> started s' \<and> \<not> connected_bit s')"
proof -
  let ?s0 = "s\<lparr>trace := trace s @ [Call_connect_wifi (cstr nm) (cstr pw)]\<rparr>"
  from assms obtain s4 where b: "connect_wifi_begin nm pw ?s0 = Some s4"
    by (auto simp: connect_wifi_def bind_eq_Some_conv)
  note f4 = connect_wifi_begin_Some [OF b]
  let ?w = "wait_bits (ticks s4) s4"
  from wait_bits_frame [of "ticks s4" s4] obtain mid where
    w: "mode (snd ?w) = mode s4" "started (snd ?w) = started s4"
      "connected_bit (snd ?w) = fst ?w"
      "trace (snd ?w) = trace s4 @ mid" "set mid \<subseteq> {Call_esp_wifi_connect}"
    by blast
  show ?thesis
  proof (cases "fst ?w")
    case True
    with assms b have "err = ESP_OK" "s' = (snd ?w)\<lparr>trace := trace (snd ?w) @ [Ret_connect_wifi ESP_OK]\<rparr>"
      by (auto simp: connect_wifi_def xEventGroupWaitBits_def case_prod_beta)
    with w f4 True show ?thesis by auto
  next
    case False
    with assms b obtain s6 where
      s6: "ESP_ERROR_CHECK (esp_wifi_stop (snd ?w)) = Some s6"
        "err = ESP_FAIL" "s' = s6\<lparr>trace := trace s6 @ [Ret_connect_wifi ESP_FAIL]\<rparr>"
      by (auto simp: connect_wifi_def xEventGroupWaitBits_def case_prod_beta bind_eq_Some_conv)
    from esp_wifi_stop_Some [OF s6(1)] esp_wifi_stop_stopped [OF s6(1)] s6(2,3) w f4 False
    show ?thesis by auto
  qed
qed

section \<open>Properties of the provisioning session and of the start\<close>

lemma session_start_ok: "session_ok session_start"
  by (simp add: session_ok_def session_start_def clean_field_def cstr_def
      WIFI_NAME_SIZE_def WIFI_PASS_SIZE_def)

lemma handle_message_session_ok:
  assumes "session_ok sess" and "handle_message rx sess s = Some (r, sess', s')"
  shows "session_ok sess'"
proof -
  from assms(1) have l: "length (ssid sess) = WIFI_NAME_SIZE" "length (password sess) = WIFI_PASS_SIZE"
    and c: "clean_field WIFI_NAME_SIZE (ssid sess)" "clean_field WIFI_PASS_SIZE (password sess)"
    by (simp_all add: session_ok_def clean_field_def)
  note n = validate_clean_field [OF l(1) c(1), of "rx @ [0]" WIFI_NAME_FIELD]
  note p = validate_clean_field [OF l(2) c(2), of "rx @ [0]" WIFI_PASSWORD_FIELD]
  from assms(2) n p c show ?thesis
    by (auto simp: handle_message_def Let_def case_prod_beta session_ok_def
        bind_eq_Some_conv split: if_splits)
qed

lemma nvs_write_stored:
  "fst (nvs_write_wifi_data a b s) \<Longrightarrow>
   stored (snd (nvs_write_wifi_data a b s)) = Some (cstr a, cstr b)"
  by (simp add: nvs_write_wifi_data_def driver_defs esp_call_eq Let_def case_prod_beta
      stored_def WIFI_SSID_KEY_def WIFI_PASS_KEY_def split: if_splits)

lemma handle_message_saved:
  assumes "handle_message rx sess s = Some (CONNECTED_SAVED, sess', s')"
  shows "stored s' = Some (cstr (ssid sess), cstr (password sess'))"
  using assms
  by (auto simp: handle_message_def Let_def case_prod_beta bind_eq_Some_conv nvs_write_stored
      split: if_splits)

lemma stored_frame:
  "stored (s\<lparr>connected_bit := x, retry_count := y\<rparr>) = stored s"
  by (simp add: stored_def split: option.splits)

lemma handler_stored:
  "fst (nvs_write_wifi_data (sta_ssid s @ sta_password s) (sta_password s) s) \<Longrightarrow>
   stored (wifi_event_handler IP_EVENT_STA_GOT_IP s)
     = Some (cstr (sta_ssid s @ sta_password s), cstr (sta_password s))"
  by (simp add: wifi_event_handler_def Let_def case_prod_beta stored_frame nvs_write_stored)

lemma bad_name_step:
  assumes "\<not> ssid_received sess"
    and "\<not> fst (validate_and_extract_value (rx @ [0]) WIFI_NAME_FIELD (ssid sess) WIFI_NAME_SIZE)"
  shows "handle_message rx sess s = Some (INVALID_SSID, sess, s)"
  using assms validate_not_found [OF assms(2)]
  by (simp add: handle_message_def Let_def)

lemma bad_secret_step:
  assumes "ssid_received sess"
    and "\<not> fst (validate_and_extract_value (rx @ [0]) WIFI_PASSWORD_FIELD (password sess)
               WIFI_PASS_SIZE)"
  shows "handle_message rx sess s = Some (INVALID_PASSWORD, sess, s)"
  using assms validate_not_found [OF assms(2)]
  by (simp add: handle_message_def Let_def)

lemma bad_names_run:
  "\<not> ssid_received sess \<Longrightarrow>
   \<forall>rx\<in>set msgs. rx \<noteq> [] \<and>
     \<not> fst (validate_and_extract_value (rx @ [0]) WIFI_NAME_FIELD (ssid sess) WIFI_NAME_SIZE) \<Longrightarrow>
   serve_client msgs sess s = Some (replicate (length msgs) INVALID_SSID, sess, s)"
  by (induction msgs) (simp_all add: bad_name_step)

lemma bad_secrets_run:
  "ssid_received sess \<Longrightarrow>
   \<forall>rx\<in>set msgs. rx \<noteq> [] \<and>
     \<not> fst (validate_and_extract_value (rx @ [0]) WIFI_PASSWORD_FIELD (password sess)
             WIFI_PASS_SIZE) \<Longrightarrow>
   serve_client msgs sess s = Some (replicate (length msgs) INVALID_PASSWORD, sess, s)"
  by (induction msgs) (simp_all add: bad_secret_step)







text \<open>
  The session buffers hold terminated strings without control bytes from the start of
  the server task on, and a pair saved by the second phase is the name and the secret of
  these buffers; the handler of the address event saves the name and password of the
  station configuration.
\<close>

lemma saved_pair_bounded:
  "session_ok session_start \<and>
   (session_ok sess \<and> handle_message rx sess s = Some (r, sess', s') \<longrightarrow>
      session_ok sess' \<and>
      (r = CONNECTED_SAVED \<longrightarrow>
         stored s' = Some (cstr (ssid sess), cstr (password sess')) \<and>
         length (cstr (ssid sess)) < WIFI_NAME_SIZE \<and>
         length (cstr (password sess')) < WIFI_PASS_SIZE \<and>
         list_all (\<lambda>b. 32 \<le> b) (cstr (ssid sess) @ cstr (password sess')))) \<and>
   (fst (nvs_write_wifi_data (sta_ssid s @ sta_password s) (sta_password s) s) \<longrightarrow>
      stored (wifi_event_handler IP_EVENT_STA_GOT_IP s)
        = Some (cstr (sta_ssid s @ sta_password s), cstr (sta_password s)))"
proof (intro conjI impI)
  show "session_ok session_start" by (rule session_start_ok)
next
  assume a: "session_ok sess \<and> handle_message rx sess s = Some (r, sess', s')"
  then show "session_ok sess'" by (blast intro: handle_message_session_ok)
next
  assume a: "session_ok sess \<and> handle_message rx sess s = Some (r, sess', s')"
    and r: "r = CONNECTED_SAVED"
  then have "handle_message rx sess s = Some (CONNECTED_SAVED, sess', s')"
    by simp
  then show "stored s' = Some (cstr (ssid sess), cstr (password sess'))"
    by (rule handle_message_saved)
next
  assume a: "session_ok sess \<and> handle_message rx sess s = Some (r, sess', s')"
  then show "length (cstr (ssid sess)) < WIFI_NAME_SIZE"
    by (simp add: session_ok_def clean_field_def)
next
  assume a: "session_ok sess \<and> handle_message rx sess s = Some (r, sess', s')"
  then have "session_ok sess'" by (blast intro: handle_message_session_ok)
  then show "length (cstr (password sess')) < WIFI_PASS_SIZE"
    by (simp add: session_ok_def clean_field_def)
next
  assume a: "session_ok sess \<and> handle_message rx sess s = Some (r, sess', s')"
  then have "session_ok sess'" by (blast intro: handle_message_session_ok)
  with a show "list_all (\<lambda>b. 32 \<le> b) (cstr (ssid sess) @ cstr (password sess'))"
    by (simp add: session_ok_def clean_field_def)
next
  assume "fst (nvs_write_wifi_data (sta_ssid s @ sta_password s) (sta_password s) s)"
  then show "stored (wifi_event_handler IP_EVENT_STA_GOT_IP s)
        = Some (cstr (sta_ssid s @ sta_password s), cstr (sta_password s))"
    by (rule handler_stored)
qed

text \<open>
  When the store cannot be opened, \<open>app_main\<close> returns at once: no read, no request, no
  access point and no server task.
\<close>

lemma app_main_store_not_opened:
  assumes "app_main_init s = Some (False, s1)"
  shows "app_main s = Some s1 \<and> trace s1 = trace s"
  using assms app_main_init_Some(3) [OF assms] by (simp add: app_main_def)

section \<open>A driver that reports no failure\<close>

text \<open>
  \<open>None\<close> is the abort of \<open>ESP_ERROR_CHECK\<close>. When no coming ESP-IDF call reports a failure,
  no request, no message and no start of the application aborts: each returns a result.
\<close>

lemma esp_result_quiet: "results s = [] \<Longrightarrow> esp_result s = (ESP_OK, s)"
  by (simp add: esp_result_def)

lemma esp_call_quiet: "results s = [] \<Longrightarrow> esp_call f s = (ESP_OK, f s)"
  by (simp add: esp_call_def esp_result_quiet)

lemma nvs_write_quiet:
  "results s = [] \<Longrightarrow> fst (nvs_write_wifi_data a b s) \<and> results (snd (nvs_write_wifi_data a b s)) = []"
  by (simp add: nvs_write_wifi_data_def driver_defs esp_call_quiet esp_result_quiet)

lemma handler_quiet: "results s = [] \<Longrightarrow> results (wifi_event_handler ev s) = []"
  by (cases ev)
    (simp_all add: wifi_event_handler_def esp_wifi_connect_def Let_def case_prod_beta
      nvs_write_quiet)

lemma wait_bits_quiet: "results s = [] \<Longrightarrow> results (snd (wait_bits ts s)) = []"
proof (induction ts arbitrary: s)
  case Nil
  then show ?case by simp
next
  case (Cons t ts)
  then show ?case by (cases t) (simp_all add: handler_quiet)
qed

lemma connect_wifi_quiet:
  assumes "results s = []"
  shows "\<exists>err s'. connect_wifi nm pw s = Some (err, s') \<and> results s' = []"
proof -
  let ?s0 = "s\<lparr>trace := trace s @ [Call_connect_wifi (cstr nm) (cstr pw)]\<rparr>"
  let ?s4 = "?s0\<lparr>started := False, mode := WIFI_MODE_STA,
      sta_ssid := strncpy (replicate 32 0) nm 32,
      sta_password := strncpy (replicate 64 0) pw 64, started := True\<rparr>"
  have b: "connect_wifi_begin nm pw ?s0 = Some ?s4"
    using assms
    by (simp add: connect_wifi_begin_def driver_defs esp_call_quiet ESP_ERROR_CHECK_def Let_def)
  have q: "results (snd (wait_bits (ticks ?s4) ?s4)) = []"
    using assms by (intro wait_bits_quiet) simp
  show ?thesis
    using q
    by (simp add: connect_wifi_def b xEventGroupWaitBits_def case_prod_beta driver_defs
        esp_call_quiet ESP_ERROR_CHECK_def)
qed

lemma handle_message_quiet:
  assumes "results s = []"
  shows "\<exists>r sess' s'. handle_message rx sess s = Some (r, sess', s') \<and> results s' = []"
proof -
  let ?pw = "snd (validate_and_extract_value (rx @ [0]) WIFI_PASSWORD_FIELD (password sess)
     WIFI_PASS_SIZE)"
  from connect_wifi_quiet [OF assms, of "ssid sess" ?pw] obtain err s1 where
    c: "connect_wifi (ssid sess) ?pw s = Some (err, s1)" "results s1 = []"
    by blast
  from c assms nvs_write_quiet [OF c(2), of "ssid sess" ?pw] show ?thesis
    by (simp add: handle_message_def Let_def case_prod_beta)
qed

lemma wifi_init_softap_quiet:
  "results s = [] \<Longrightarrow> \<exists>s'. wifi_init_softap s = Some s' \<and> results s' = []"
  by (simp add: wifi_init_softap_def driver_defs esp_call_quiet esp_result_quiet
      ESP_ERROR_CHECK_def)

lemma nvs_read_quiet:
  "results s = [] \<Longrightarrow> results (snd (snd (snd (nvs_read_wifi_data a b s)))) = []"
  by (simp add: nvs_read_wifi_data_def nvs_get_str_def Let_def case_prod_beta esp_result_quiet
      split: option.splits)

lemma app_main_quiet:
  assumes "results s = []"
  shows "\<exists>s'. app_main s = Some s'"
proof -
  have i: "app_main_init s = Some (True, s\<lparr>connected_bit := False\<rparr>)"
    using assms
    by (simp add: app_main_init_def nvs_init_def driver_defs esp_result_quiet
        ESP_ERROR_CHECK_def Let_def)
  let ?s1 = "s\<lparr>connected_bit := False\<rparr>"
  let ?r = "nvs_read_wifi_data (replicate 32 0) (replicate 64 0) ?s1"
  have q: "results (snd (snd (snd ?r))) = []"
    using assms by (intro nvs_read_quiet) simp
  from connect_wifi_quiet [OF q, of "fst (snd ?r)" "fst (snd (snd ?r))"] obtain err s2 where
    c: "connect_wifi (fst (snd ?r)) (fst (snd (snd ?r))) (snd (snd (snd ?r))) = Some (err, s2)"
      "results s2 = []"
    by blast
  from wifi_init_softap_quiet [OF c(2)] obtain s3 where a: "wifi_init_softap s2 = Some s3"
    by blast
  from wifi_init_softap_quiet [OF q] obtain s4 where
    b: "wifi_init_softap (snd (snd (snd ?r))) = Some s4"
    by blast
  show ?thesis
    using c a b
    by (simp add: app_main_def i app_main_wifi_def case_prod_beta)
qed

section \<open>Claims about the value extractor\<close>

text \<open>
  C1, as stated: a buffer that lacks the pattern \<open>key:"value"\<close> is answered with not-found.
  The extractor does not look for the pattern as a whole. In the buffer
  \<open>{"wifi_name":7,"x":"Home"}\<close> the key \<open>"wifi_name"\<close> is followed by a colon and a number,
  so the pattern is absent for this key, and the extractor still succeeds: it takes the
  next double quote it meets after the colon, the one that opens \<open>"x"\<close>.
\<close>

theorem pattern_absent_but_found:
  "\<not> has_pattern (cstr (quoted ''wifi_name''))
       (cstr (bytes_of ''{'' @ quoted ''wifi_name'' @ COLON # bytes_of ''7,'' @ quoted ''x''
                @ COLON # quoted ''Home'' @ bytes_of ''}'')) \<and>
   fst (validate_and_extract_value
          (bytes_of ''{'' @ quoted ''wifi_name'' @ COLON # bytes_of ''7,'' @ quoted ''x''
             @ COLON # quoted ''Home'' @ bytes_of ''}'')
          (quoted ''wifi_name'') (replicate 32 0) 32) \<and>
   cstr (snd (validate_and_extract_value
          (bytes_of ''{'' @ quoted ''wifi_name'' @ COLON # bytes_of ''7,'' @ quoted ''x''
             @ COLON # quoted ''Home'' @ bytes_of ''}'')
          (quoted ''wifi_name'') (replicate 32 0) 32)) = bytes_of ''x''"
  by code_simp

text \<open>
  C1, amended: if the buffer does not contain the key followed, from the first byte of the
  key on and at any distance, by a colon, then a double quote, then a second double quote,
  the extractor returns not-found, whatever else the buffer contains.
\<close>

theorem lacking_markers_not_found:
  assumes "\<not> has_markers (cstr key) (cstr json_str)"
  shows "\<not> fst (validate_and_extract_value json_str key output output_size)"
proof
  assume "fst (validate_and_extract_value json_str key output output_size)"
  from validate_foundD [OF this] obtain a b c v post where
    d: "cstr json_str = a @ b @ COLON # c @ DQUOTE # v @ DQUOTE # post"
      "prefix (cstr key) (b @ COLON # c @ DQUOTE # v @ DQUOTE # post)"
    by blast
  let ?t = "b @ COLON # c @ DQUOTE # v @ DQUOTE # post"
  have "subseq ([] @ COLON # [] @ DQUOTE # [] @ DQUOTE # []) ?t"
    by (intro list_emb_append_mono subseq_Cons2 list_emb_Nil)
  then have "subseq [COLON, DQUOTE, DQUOTE] ?t" by simp
  moreover have "?t \<in> set (suffixes (cstr json_str))"
    unfolding d(1) in_set_suffixes by (simp add: suffix_def)
  ultimately have "has_markers (cstr key) (cstr json_str)"
    unfolding has_markers_def list_ex_iff using d(2) by blast
  with assms show False by contradiction
qed

theorem lacking_markers_not_found_witness:
  "\<not> has_markers (cstr (quoted ''wifi_name''))
       (cstr (bytes_of ''{'' @ quoted ''wifi_name'' @ bytes_of '' Home}'')) \<and>
   \<not> fst (validate_and_extract_value (bytes_of ''{'' @ quoted ''wifi_name'' @ bytes_of '' Home}'')
           (quoted ''wifi_name'') (replicate 32 0) 32)"
proof -
  have h: "\<not> has_markers (cstr (quoted ''wifi_name''))
       (cstr (bytes_of ''{'' @ quoted ''wifi_name'' @ bytes_of '' Home}''))"
    by code_simp
  from h lacking_markers_not_found [OF h] show ?thesis by (rule conjI)
qed

text \<open>
  C2: when the extractor succeeds, the string of the buffer splits at the first occurrence
  of the key into the bytes up to the first colon, the bytes up to the next double quote,
  the value \<open>v\<close> and its closing double quote. The destination then holds \<open>v\<close> with every
  byte below 32 replaced by an underscore, then the terminator, then the bytes it held
  before from that offset on; read as a C string it is the cleaned value and nothing
  else. The destination array is at least as long as the capacity passed with it.
\<close>

theorem extracted_value_exact:
  assumes "fst (validate_and_extract_value json_str key output output_size)"
    and "output_size \<le> length output"
  shows "\<exists>a b c v post.
           first_match (cstr json_str) (cstr key) a
             (b @ COLON # c @ DQUOTE # v @ DQUOTE # post) \<and>
           COLON \<notin> set b \<and> DQUOTE \<notin> set c \<and> DQUOTE \<notin> set v \<and>
           snd (validate_and_extract_value json_str key output output_size)
             = map sanitize v @ 0 # drop (Suc (length v)) output \<and>
           cstr (snd (validate_and_extract_value json_str key output output_size))
             = map sanitize v"
  using validate_found_result [OF assms] by blast

theorem extracted_value_exact_witness:
  "fst (validate_and_extract_value
          (bytes_of ''{'' @ quoted ''wifi_name'' @ COLON # DQUOTE # bytes_of ''Ho'' @ [7, 200]
             @ bytes_of ''me'' @ DQUOTE # bytes_of ''}'')
          (quoted ''wifi_name'') (replicate 8 1) 8) \<and>
   8 \<le> length (replicate 8 (1::byte)) \<and>
   (\<exists>a b c v post.
      first_match
        (cstr (bytes_of ''{'' @ quoted ''wifi_name'' @ COLON # DQUOTE # bytes_of ''Ho'' @ [7, 200]
                 @ bytes_of ''me'' @ DQUOTE # bytes_of ''}''))
        (cstr (quoted ''wifi_name'')) a (b @ COLON # c @ DQUOTE # v @ DQUOTE # post) \<and>
      COLON \<notin> set b \<and> DQUOTE \<notin> set c \<and> DQUOTE \<notin> set v \<and>
      snd (validate_and_extract_value
             (bytes_of ''{'' @ quoted ''wifi_name'' @ COLON # DQUOTE # bytes_of ''Ho'' @ [7, 200]
                @ bytes_of ''me'' @ DQUOTE # bytes_of ''}'')
             (quoted ''wifi_name'') (replicate 8 1) 8)
        = map sanitize v @ 0 # drop (Suc (length v)) (replicate 8 1) \<and>
      cstr (snd (validate_and_extract_value
             (bytes_of ''{'' @ quoted ''wifi_name'' @ COLON # DQUOTE # bytes_of ''Ho'' @ [7, 200]
                @ bytes_of ''me'' @ DQUOTE # bytes_of ''}'')
             (quoted ''wifi_name'') (replicate 8 1) 8))
        = map sanitize v)"
proof -
  have h1: "fst (validate_and_extract_value
          (bytes_of ''{'' @ quoted ''wifi_name'' @ COLON # DQUOTE # bytes_of ''Ho'' @ [7, 200]
             @ bytes_of ''me'' @ DQUOTE # bytes_of ''}'')
          (quoted ''wifi_name'') (replicate 8 1) 8)"
    by code_simp
  have h2: "8 \<le> length (replicate 8 (1::byte))"
    by simp
  from h1 h2 extracted_value_exact [OF h1 h2] show ?thesis
    by (intro conjI)
qed

text \<open>
  C3: the extractor returns not-found when the key does not occur; when no colon follows
  the first occurrence of the key; when no double quote follows that colon; when no second
  double quote follows the opening one; and when the value between the two quotes is as
  long as the capacity or longer, a value of exactly the capacity included.
\<close>

theorem extractor_rejects:
  "(\<not> sublist (cstr key) (cstr json_str) \<longrightarrow>
      \<not> fst (validate_and_extract_value json_str key output output_size)) \<and>
   (first_match (cstr json_str) (cstr key) a t \<and> COLON \<notin> set t \<longrightarrow>
      \<not> fst (validate_and_extract_value json_str key output output_size)) \<and>
   (first_match (cstr json_str) (cstr key) a (b @ COLON # r) \<and>
    COLON \<notin> set b \<and> DQUOTE \<notin> set r \<longrightarrow>
      \<not> fst (validate_and_extract_value json_str key output output_size)) \<and>
   (first_match (cstr json_str) (cstr key) a (b @ COLON # c @ DQUOTE # r') \<and>
    COLON \<notin> set b \<and> DQUOTE \<notin> set c \<and> DQUOTE \<notin> set r' \<longrightarrow>
      \<not> fst (validate_and_extract_value json_str key output output_size)) \<and>
   (first_match (cstr json_str) (cstr key) a (b @ COLON # c @ DQUOTE # v @ DQUOTE # post) \<and>
    COLON \<notin> set b \<and> DQUOTE \<notin> set c \<and> DQUOTE \<notin> set v \<and> output_size \<le> length v \<longrightarrow>
      \<not> fst (validate_and_extract_value json_str key output output_size))"
proof (intro conjI impI; (elim conjE)?)
  assume "\<not> sublist (cstr key) (cstr json_str)"
  then show "\<not> fst (validate_and_extract_value json_str key output output_size)"
    by (simp add: validate_no_key)
next
  assume "first_match (cstr json_str) (cstr key) a t" "COLON \<notin> set t"
  then show "\<not> fst (validate_and_extract_value json_str key output output_size)"
    unfolding first_match_iff by (metis validate_no_colon fst_conv)
next
  assume "first_match (cstr json_str) (cstr key) a (b @ COLON # r)"
    "COLON \<notin> set b" "DQUOTE \<notin> set r"
  then show "\<not> fst (validate_and_extract_value json_str key output output_size)"
    unfolding first_match_iff by (metis validate_no_open fst_conv)
next
  assume "first_match (cstr json_str) (cstr key) a (b @ COLON # c @ DQUOTE # r')"
    "COLON \<notin> set b" "DQUOTE \<notin> set c" "DQUOTE \<notin> set r'"
  then show "\<not> fst (validate_and_extract_value json_str key output output_size)"
    unfolding first_match_iff by (metis validate_no_close fst_conv)
next
  assume "first_match (cstr json_str) (cstr key) a (b @ COLON # c @ DQUOTE # v @ DQUOTE # post)"
    "COLON \<notin> set b" "DQUOTE \<notin> set c" "DQUOTE \<notin> set v" "output_size \<le> length v"
  then show "\<not> fst (validate_and_extract_value json_str key output output_size)"
    unfolding first_match_iff by (metis validate_too_long fst_conv)
qed

theorem extractor_rejects_witness:
  "(\<not> sublist (cstr (quoted ''wifi_name''))
        (cstr (bytes_of ''{'' @ quoted ''other'' @ COLON # quoted ''v'' @ bytes_of ''}'')) \<and>
    \<not> fst (validate_and_extract_value
            (bytes_of ''{'' @ quoted ''other'' @ COLON # quoted ''v'' @ bytes_of ''}'')
            (quoted ''wifi_name'') (replicate 4 0) 4)) \<and>
   (first_match (cstr (bytes_of ''{'' @ quoted ''wifi_name'' @ bytes_of ''}''))
      (cstr (quoted ''wifi_name'')) (bytes_of ''{'') (quoted ''wifi_name'' @ bytes_of ''}'') \<and>
    COLON \<notin> set (quoted ''wifi_name'' @ bytes_of ''}'') \<and>
    \<not> fst (validate_and_extract_value
            (bytes_of ''{'' @ quoted ''wifi_name'' @ bytes_of ''}'')
            (quoted ''wifi_name'') (replicate 4 0) 4)) \<and>
   (first_match (cstr (bytes_of ''{'' @ quoted ''wifi_name'' @ COLON # bytes_of ''7}''))
      (cstr (quoted ''wifi_name'')) (bytes_of ''{'')
      (quoted ''wifi_name'' @ COLON # bytes_of ''7}'') \<and>
    COLON \<notin> set (quoted ''wifi_name'') \<and> DQUOTE \<notin> set (bytes_of ''7}'') \<and>
    \<not> fst (validate_and_extract_value
            (bytes_of ''{'' @ quoted ''wifi_name'' @ COLON # bytes_of ''7}'')
            (quoted ''wifi_name'') (replicate 4 0) 4)) \<and>
   (first_match (cstr (bytes_of ''{'' @ quoted ''wifi_name'' @ COLON # [] @ DQUOTE # bytes_of ''Home}''))
      (cstr (quoted ''wifi_name'')) (bytes_of ''{'')
      (quoted ''wifi_name'' @ COLON # [] @ DQUOTE # bytes_of ''Home}'') \<and>
    COLON \<notin> set (quoted ''wifi_name'') \<and> DQUOTE \<notin> set [] \<and>
    DQUOTE \<notin> set (bytes_of ''Home}'') \<and>
    \<not> fst (validate_and_extract_value
            (bytes_of ''{'' @ quoted ''wifi_name'' @ COLON # [] @ DQUOTE # bytes_of ''Home}'')
            (quoted ''wifi_name'') (replicate 4 0) 4)) \<and>
   (first_match
      (cstr (bytes_of ''{'' @ quoted ''wifi_name'' @ COLON # [] @ DQUOTE # bytes_of ''Home''
               @ DQUOTE # bytes_of ''}''))
      (cstr (quoted ''wifi_name'')) (bytes_of ''{'')
      (quoted ''wifi_name'' @ COLON # [] @ DQUOTE # bytes_of ''Home'' @ DQUOTE # bytes_of ''}'') \<and>
    COLON \<notin> set (quoted ''wifi_name'') \<and> DQUOTE \<notin> set [] \<and>
    DQUOTE \<notin> set (bytes_of ''Home'') \<and> 4 \<le> length (bytes_of ''Home'') \<and>
    \<not> fst (validate_and_extract_value
            (bytes_of ''{'' @ quoted ''wifi_name'' @ COLON # [] @ DQUOTE # bytes_of ''Home''
               @ DQUOTE # bytes_of ''}'')
            (quoted ''wifi_name'') (replicate 4 0) 4))"
proof -
  have h1: "\<not> sublist (cstr (quoted ''wifi_name''))
        (cstr (bytes_of ''{'' @ quoted ''other'' @ COLON # quoted ''v'' @ bytes_of ''}''))"
    by code_simp
  have h2: "first_match (cstr (bytes_of ''{'' @ quoted ''wifi_name'' @ bytes_of ''}''))
      (cstr (quoted ''wifi_name'')) (bytes_of ''{'') (quoted ''wifi_name'' @ bytes_of ''}'') \<and>
    COLON \<notin> set (quoted ''wifi_name'' @ bytes_of ''}'')"
    by code_simp
  have h3: "first_match (cstr (bytes_of ''{'' @ quoted ''wifi_name'' @ COLON # bytes_of ''7}''))
      (cstr (quoted ''wifi_name'')) (bytes_of ''{'')
      (quoted ''wifi_name'' @ COLON # bytes_of ''7}'') \<and>
    COLON \<notin> set (quoted ''wifi_name'') \<and> DQUOTE \<notin> set (bytes_of ''7}'')"
    by code_simp
  have h4: "first_match (cstr (bytes_of ''{'' @ quoted ''wifi_name'' @ COLON # [] @ DQUOTE # bytes_of ''Home}''))
      (cstr (quoted ''wifi_name'')) (bytes_of ''{'')
      (quoted ''wifi_name'' @ COLON # [] @ DQUOTE # bytes_of ''Home}'') \<and>
    COLON \<notin> set (quoted ''wifi_name'') \<and> DQUOTE \<notin> set [] \<and>
    DQUOTE \<notin> set (bytes_of ''Home}'')"
    by code_simp
  have h5: "first_match
      (cstr (bytes_of ''{'' @ quoted ''wifi_name'' @ COLON # [] @ DQUOTE # bytes_of ''Home''
               @ DQUOTE # bytes_of ''}''))
      (cstr (quoted ''wifi_name'')) (bytes_of ''{'')
      (quoted ''wifi_name'' @ COLON # [] @ DQUOTE # bytes_of ''Home'' @ DQUOTE # bytes_of ''}'') \<and>
    COLON \<notin> set (quoted ''wifi_name'') \<and> DQUOTE \<notin> set [] \<and>
    DQUOTE \<notin> set (bytes_of ''Home'') \<and> 4 \<le> length (bytes_of ''Home'')"
    by code_simp
  note t = extractor_rejects [of "quoted ''wifi_name''" _ "replicate 4 0" 4]
  from h1 t [THEN conjunct1] have c1: "\<not> fst (validate_and_extract_value
            (bytes_of ''{'' @ quoted ''other'' @ COLON # quoted ''v'' @ bytes_of ''}'')
            (quoted ''wifi_name'') (replicate 4 0) 4)"
    by (rule rev_mp)
  from h2 t [THEN conjunct2, THEN conjunct1] have c2: "\<not> fst (validate_and_extract_value
            (bytes_of ''{'' @ quoted ''wifi_name'' @ bytes_of ''}'')
            (quoted ''wifi_name'') (replicate 4 0) 4)"
    by (rule rev_mp)
  from h3 t [THEN conjunct2, THEN conjunct2, THEN conjunct1] have c3: "\<not> fst (validate_and_extract_value
            (bytes_of ''{'' @ quoted ''wifi_name'' @ COLON # bytes_of ''7}'')
            (quoted ''wifi_name'') (replicate 4 0) 4)"
    by (rule rev_mp)
  from h4 t [THEN conjunct2, THEN conjunct2, THEN conjunct2, THEN conjunct1]
  have c4: "\<not> fst (validate_and_extract_value
            (bytes_of ''{'' @ quoted ''wifi_name'' @ COLON # [] @ DQUOTE # bytes_of ''Home}'')
            (quoted ''wifi_name'') (replicate 4 0) 4)"
    by (rule rev_mp)
  from h5 t [THEN conjunct2, THEN conjunct2, THEN conjunct2, THEN conjunct2]
  have c5: "\<not> fst (validate_and_extract_value
            (bytes_of ''{'' @ quoted ''wifi_name'' @ COLON # [] @ DQUOTE # bytes_of ''Home''
               @ DQUOTE # bytes_of ''}'')
            (quoted ''wifi_name'') (replicate 4 0) 4)"
    by (rule rev_mp)
  from h1 h2 h3 h4 h5 c1 c2 c3 c4 c5 show ?thesis
    by blast
qed


section \<open>Claims about the connection state machine\<close>

text \<open>
  C4: in every reachable state the retry counter lies between 0 and 5. A run of \<open>n\<close>
  consecutive disconnect events makes exactly as many reconnection attempts as the counter
  leaves room for, never more than 5, and once the room is used up the next disconnect
  clears the connected signal instead of retrying. The address event sets the counter to 0
  and raises the connected signal.
\<close>

theorem retry_counter_bounded:
  assumes "reachable s"
  shows "0 \<le> retry_count s \<and> retry_count s \<le> MAX_RETRY \<and>
    attempts (fold wifi_event_handler (replicate n WIFI_EVENT_STA_DISCONNECTED) s)
      = attempts s + min n (nat (MAX_RETRY - retry_count s)) \<and>
    attempts (fold wifi_event_handler (replicate n WIFI_EVENT_STA_DISCONNECTED) s)
      \<le> attempts s + 5 \<and>
    (nat (MAX_RETRY - retry_count s) < n \<longrightarrow>
       \<not> connected_bit (fold wifi_event_handler (replicate n WIFI_EVENT_STA_DISCONNECTED) s)) \<and>
    retry_count (wifi_event_handler IP_EVENT_STA_GOT_IP s) = 0 \<and>
    connected_bit (wifi_event_handler IP_EVENT_STA_GOT_IP s)"
proof -
  from reachable_bound [OF assms] have b: "0 \<le> retry_count s" "retry_count s \<le> MAX_RETRY"
    by simp_all
  from b(1) have "nat (MAX_RETRY - retry_count s) \<le> 5"
    by (simp add: MAX_RETRY_def)
  then have "min n (nat (MAX_RETRY - retry_count s)) \<le> 5"
    by simp
  with b disconnect_run [of n s] got_ip_step [of s] show ?thesis
    by simp
qed

theorem retry_counter_bounded_witness:
  "reachable (wifi_event_handler WIFI_EVENT_STA_DISCONNECTED power_on) \<and>
   0 \<le> retry_count (wifi_event_handler WIFI_EVENT_STA_DISCONNECTED power_on) \<and>
   retry_count (wifi_event_handler WIFI_EVENT_STA_DISCONNECTED power_on) \<le> MAX_RETRY \<and>
   attempts (fold wifi_event_handler (replicate 7 WIFI_EVENT_STA_DISCONNECTED)
               (wifi_event_handler WIFI_EVENT_STA_DISCONNECTED power_on))
     = attempts (wifi_event_handler WIFI_EVENT_STA_DISCONNECTED power_on)
       + min 7 (nat (MAX_RETRY
                      - retry_count (wifi_event_handler WIFI_EVENT_STA_DISCONNECTED power_on))) \<and>
   attempts (fold wifi_event_handler (replicate 7 WIFI_EVENT_STA_DISCONNECTED)
               (wifi_event_handler WIFI_EVENT_STA_DISCONNECTED power_on))
     \<le> attempts (wifi_event_handler WIFI_EVENT_STA_DISCONNECTED power_on) + 5 \<and>
   nat (MAX_RETRY - retry_count (wifi_event_handler WIFI_EVENT_STA_DISCONNECTED power_on)) < 7 \<and>
   \<not> connected_bit (fold wifi_event_handler (replicate 7 WIFI_EVENT_STA_DISCONNECTED)
                      (wifi_event_handler WIFI_EVENT_STA_DISCONNECTED power_on)) \<and>
   retry_count (wifi_event_handler IP_EVENT_STA_GOT_IP
                  (wifi_event_handler WIFI_EVENT_STA_DISCONNECTED power_on)) = 0 \<and>
   connected_bit (wifi_event_handler IP_EVENT_STA_GOT_IP
                    (wifi_event_handler WIFI_EVENT_STA_DISCONNECTED power_on))"
proof -
  have r: "reachable (wifi_event_handler WIFI_EVENT_STA_DISCONNECTED power_on)"
    by (intro reachable.event reachable.start) (simp add: power_on_def)
  have h: "nat (MAX_RETRY - retry_count (wifi_event_handler WIFI_EVENT_STA_DISCONNECTED power_on)) < 7"
    by (simp add: disconnect_step power_on_def MAX_RETRY_def)
  from retry_counter_bounded [OF r, of 7] h r show ?thesis
    by blast
qed

text \<open>
  C5, as stated: every connection request resets the retry counter to 0 before the
  handshake begins. \<open>connect_wifi\<close> never writes the counter. After a start with stored
  credentials whose network does not answer, the counter stands at 5, and it still stands
  at 5 when the next request has configured and started the radio.
\<close>

theorem request_does_not_reset:
  "map_option retry_count
     (Option.bind
        (app_main (power_on\<lparr>nvs := [WIFI_SSID_KEY \<mapsto> bytes_of ''Home'',
                                    WIFI_PASS_KEY \<mapsto> bytes_of ''secret123''],
                            ticks := Deliver WIFI_EVENT_STA_START
                                     # replicate 6 (Deliver WIFI_EVENT_STA_DISCONNECTED)
                                     @ [Timeout]\<rparr>))
        (connect_wifi_begin (bytes_of ''Cafe'') (bytes_of ''espresso''))) = Some 5"
  by code_simp

text \<open>
  C5, amended: a connection request does not reset the retry counter. The counter has the
  value it had at the call when the handshake begins; while the request waits, only the
  event handler changes it, and unless an address event arrives it does not decrease. The
  reset to 0 is the one of the address event, on entry to Connected.
\<close>

theorem request_keeps_counter:
  "(connect_wifi_begin nm pw s = Some s1 \<longrightarrow> retry_count s1 = retry_count s) \<and>
   (connect_wifi nm pw s = Some (err, s') \<and> Deliver IP_EVENT_STA_GOT_IP \<notin> set (ticks s)
      \<longrightarrow> retry_count s \<le> retry_count s') \<and>
   retry_count (wifi_event_handler IP_EVENT_STA_GOT_IP s) = 0"
proof (intro conjI impI)
  assume "connect_wifi_begin nm pw s = Some s1"
  then show "retry_count s1 = retry_count s" by (rule connect_wifi_begin_Some(1))
next
  assume a: "connect_wifi nm pw s = Some (err, s') \<and> Deliver IP_EVENT_STA_GOT_IP \<notin> set (ticks s)"
  then obtain s4 where
    b: "connect_wifi_begin nm pw
          (s\<lparr>trace := trace s @ [Call_connect_wifi (cstr nm) (cstr pw)]\<rparr>) = Some s4"
    by (auto simp: connect_wifi_def bind_eq_Some_conv)
  from connect_wifi_begin_Some [OF b] have e: "retry_count s4 = retry_count s" "ticks s4 = ticks s"
    by simp_all
  with a have "retry_count s \<le> retry_count (snd (xEventGroupWaitBits s4))"
    unfolding xEventGroupWaitBits_def using wait_bits_no_reset [of "ticks s4" s4] by simp
  with a b show "retry_count s \<le> retry_count s'"
    by (auto simp: connect_wifi_def bind_eq_Some_conv case_prod_beta split: if_splits
        dest: esp_wifi_stop_Some(1))
next
  show "retry_count (wifi_event_handler IP_EVENT_STA_GOT_IP s) = 0"
    using got_ip_step by simp
qed

theorem request_keeps_counter_witness:
  "(\<exists>s1. connect_wifi_begin (bytes_of ''Cafe'') (bytes_of ''espresso'')
            (power_on\<lparr>retry_count := 5,
                      ticks := [Deliver WIFI_EVENT_STA_START,
                                Deliver WIFI_EVENT_STA_DISCONNECTED, Timeout]\<rparr>) = Some s1 \<and>
         retry_count s1
           = retry_count (power_on\<lparr>retry_count := 5,
                      ticks := [Deliver WIFI_EVENT_STA_START,
                                Deliver WIFI_EVENT_STA_DISCONNECTED, Timeout]\<rparr>)) \<and>
   (\<exists>s'. connect_wifi (bytes_of ''Cafe'') (bytes_of ''espresso'')
            (power_on\<lparr>retry_count := 5,
                      ticks := [Deliver WIFI_EVENT_STA_START,
                                Deliver WIFI_EVENT_STA_DISCONNECTED, Timeout]\<rparr>)
            = Some (ESP_FAIL, s') \<and>
         Deliver IP_EVENT_STA_GOT_IP
           \<notin> set (ticks (power_on\<lparr>retry_count := 5,
                      ticks := [Deliver WIFI_EVENT_STA_START,
                                Deliver WIFI_EVENT_STA_DISCONNECTED, Timeout]\<rparr>)) \<and>
         retry_count (power_on\<lparr>retry_count := 5,
                      ticks := [Deliver WIFI_EVENT_STA_START,
                                Deliver WIFI_EVENT_STA_DISCONNECTED, Timeout]\<rparr>)
           \<le> retry_count s') \<and>
   retry_count (wifi_event_handler IP_EVENT_STA_GOT_IP
      (power_on\<lparr>retry_count := 5,
                      ticks := [Deliver WIFI_EVENT_STA_START,
                                Deliver WIFI_EVENT_STA_DISCONNECTED, Timeout]\<rparr>)) = 0"
proof -
  let ?S = "power_on\<lparr>retry_count := 5,
                      ticks := [Deliver WIFI_EVENT_STA_START,
                                Deliver WIFI_EVENT_STA_DISCONNECTED, Timeout]\<rparr>"
  have "\<not> Option.is_none (connect_wifi_begin (bytes_of ''Cafe'') (bytes_of ''espresso'') ?S)"
    by code_simp
  then obtain s1 where
    b: "connect_wifi_begin (bytes_of ''Cafe'') (bytes_of ''espresso'') ?S = Some s1"
    by (auto simp: Option.is_none_def)
  have "map_option fst (connect_wifi (bytes_of ''Cafe'') (bytes_of ''espresso'') ?S) = Some ESP_FAIL"
    by code_simp
  then obtain s' where
    c: "connect_wifi (bytes_of ''Cafe'') (bytes_of ''espresso'') ?S = Some (ESP_FAIL, s')"
    by auto
  have t: "Deliver IP_EVENT_STA_GOT_IP \<notin> set (ticks ?S)"
    by simp
  note th = request_keeps_counter [of "bytes_of ''Cafe''" "bytes_of ''espresso''" ?S s1 ESP_FAIL s']
  from th b have 1: "retry_count s1 = retry_count ?S" by blast
  from th c t have 2: "retry_count ?S \<le> retry_count s'" by blast
  from th have 3: "retry_count (wifi_event_handler IP_EVENT_STA_GOT_IP ?S) = 0" by blast
  from b c t 1 2 3 show ?thesis by blast
qed

section \<open>Claims about the provisioning session\<close>

text \<open>
  C6: a session that waits for the secret and receives a message from which a
  \<open>wifi_password\<close> value is extracted calls \<open>connect_wifi\<close> with the pending name and that
  secret, on the state it was given. Afterwards the session is back in the first phase with
  the secret in its password buffer, whatever the outcome. When the connection succeeded,
  the resulting state is the one that the store write of (name, secret) leaves behind, and
  the reply is connected-and-saved when that write succeeded, in which case the store holds
  the pair, and connected-but-not-saved when it failed. When the connection timed out the
  reply is connection-failed and the state is the one the request left behind, with no
  store write. The message is handled to its end, that is, no driver call made the
  firmware abort.
\<close>

theorem secret_phase_outcome:
  assumes "ssid_received sess"
    and "validate_and_extract_value (rx @ [0]) WIFI_PASSWORD_FIELD (password sess) WIFI_PASS_SIZE
           = (True, secret)"
    and "handle_message rx sess s = Some (r, sess', s')"
  shows "sess' = sess\<lparr>password := secret, ssid_received := False\<rparr> \<and>
    \<not> ssid_received sess' \<and>
    (\<exists>err s1 mid.
       connect_wifi (ssid sess) secret s = Some (err, s1) \<and>
       trace s1 = trace s @ Call_connect_wifi (cstr (ssid sess)) (cstr secret) # mid
                    @ [Ret_connect_wifi err] \<and>
       (err = ESP_OK \<or> err = ESP_FAIL) \<and>
       s' = (if err = ESP_OK then snd (nvs_write_wifi_data (ssid sess) secret s1) else s1) \<and>
       r = (if err = ESP_OK
            then (if fst (nvs_write_wifi_data (ssid sess) secret s1)
                  then CONNECTED_SAVED else CONNECTED_NOT_SAVED)
            else CONNECT_FAILED) \<and>
       (r = CONNECTED_SAVED \<longrightarrow> stored s' = Some (cstr (ssid sess), cstr secret)))"
proof -
  from assms obtain err s1 where c: "connect_wifi (ssid sess) secret s = Some (err, s1)"
    by (auto simp: handle_message_def Let_def bind_eq_Some_conv)
  from connect_wifi_Some [OF c] obtain mid where
    t: "trace s1 = trace s @ Call_connect_wifi (cstr (ssid sess)) (cstr secret) # mid
                    @ [Ret_connect_wifi err]"
    and e: "err = ESP_OK \<or> err = ESP_FAIL"
    by blast
  from assms c have 1: "sess' = sess\<lparr>password := secret, ssid_received := False\<rparr>"
    by (auto simp: handle_message_def Let_def case_prod_beta split: if_splits)
  then have 2: "\<not> ssid_received sess'" by simp
  from assms c have 3:
    "s' = (if err = ESP_OK then snd (nvs_write_wifi_data (ssid sess) secret s1) else s1)"
    by (auto simp: handle_message_def Let_def case_prod_beta split: if_splits)
  from assms c have 4: "r = (if err = ESP_OK
            then (if fst (nvs_write_wifi_data (ssid sess) secret s1)
                  then CONNECTED_SAVED else CONNECTED_NOT_SAVED)
            else CONNECT_FAILED)"
    by (auto simp: handle_message_def Let_def case_prod_beta split: if_splits)
  from 3 4 have 5: "r = CONNECTED_SAVED \<longrightarrow> stored s' = Some (cstr (ssid sess), cstr secret)"
    by (auto simp: nvs_write_stored split: if_splits)
  from c t e 1 2 3 4 5 show ?thesis by blast
qed

theorem secret_phase_outcome_witness:
  "ssid_received home_session \<and>
   (\<exists>secret sess' s' s1 mid.
      validate_and_extract_value (one_field ''wifi_password'' ''secret123'' @ [0])
        WIFI_PASSWORD_FIELD (password home_session) WIFI_PASS_SIZE = (True, secret) \<and>
      handle_message (one_field ''wifi_password'' ''secret123'') home_session
        (power_on\<lparr>ticks := network_answers\<rparr>) = Some (CONNECTED_SAVED, sess', s') \<and>
      sess' = home_session\<lparr>password := secret, ssid_received := False\<rparr> \<and>
      connect_wifi (ssid home_session) secret (power_on\<lparr>ticks := network_answers\<rparr>)
        = Some (ESP_OK, s1) \<and>
      trace s1 = trace (power_on\<lparr>ticks := network_answers\<rparr>)
                 @ Call_connect_wifi (cstr (ssid home_session)) (cstr secret) # mid
                 @ [Ret_connect_wifi ESP_OK] \<and>
      fst (nvs_write_wifi_data (ssid home_session) secret s1) \<and>
      s' = snd (nvs_write_wifi_data (ssid home_session) secret s1) \<and>
      stored s' = Some (cstr (ssid home_session), cstr secret)) \<and>
   (\<exists>secret sess' s' s1.
      validate_and_extract_value (one_field ''wifi_password'' ''secret123'' @ [0])
        WIFI_PASSWORD_FIELD (password home_session) WIFI_PASS_SIZE = (True, secret) \<and>
      handle_message (one_field ''wifi_password'' ''secret123'') home_session
        (power_on\<lparr>ticks := network_answers, results := replicate 7 ESP_OK @ [ESP_FAIL]\<rparr>)
        = Some (CONNECTED_NOT_SAVED, sess', s') \<and>
      sess' = home_session\<lparr>password := secret, ssid_received := False\<rparr> \<and>
      connect_wifi (ssid home_session) secret
        (power_on\<lparr>ticks := network_answers, results := replicate 7 ESP_OK @ [ESP_FAIL]\<rparr>)
        = Some (ESP_OK, s1) \<and>
      \<not> fst (nvs_write_wifi_data (ssid home_session) secret s1) \<and>
      s' = snd (nvs_write_wifi_data (ssid home_session) secret s1)) \<and>
   (\<exists>secret sess' s'.
      validate_and_extract_value (one_field ''wifi_password'' ''secret123'' @ [0])
        WIFI_PASSWORD_FIELD (password home_session) WIFI_PASS_SIZE = (True, secret) \<and>
      handle_message (one_field ''wifi_password'' ''secret123'') home_session
        (power_on\<lparr>ticks := network_silent\<rparr>) = Some (CONNECT_FAILED, sess', s') \<and>
      sess' = home_session\<lparr>password := secret, ssid_received := False\<rparr> \<and>
      connect_wifi (ssid home_session) secret (power_on\<lparr>ticks := network_silent\<rparr>)
        = Some (ESP_FAIL, s') \<and>
      stored s' = None)"
proof -
  let ?rx = "one_field ''wifi_password'' ''secret123''"
  let ?A = "power_on\<lparr>ticks := network_answers\<rparr>"
  let ?B = "power_on\<lparr>ticks := network_answers, results := replicate 7 ESP_OK @ [ESP_FAIL]\<rparr>"
  let ?C = "power_on\<lparr>ticks := network_silent\<rparr>"
  have h1: "ssid_received home_session" by (simp add: home_session_def)
  have "fst (validate_and_extract_value (?rx @ [0]) WIFI_PASSWORD_FIELD (password home_session)
               WIFI_PASS_SIZE)"
    by code_simp
  then obtain secret where
    h2: "validate_and_extract_value (?rx @ [0]) WIFI_PASSWORD_FIELD (password home_session)
           WIFI_PASS_SIZE = (True, secret)"
    by (cases "validate_and_extract_value (?rx @ [0]) WIFI_PASSWORD_FIELD (password home_session)
           WIFI_PASS_SIZE") auto
  have "map_option fst (handle_message ?rx home_session ?A) = Some CONNECTED_SAVED"
    by code_simp
  then obtain sa s'a where a: "handle_message ?rx home_session ?A = Some (CONNECTED_SAVED, sa, s'a)"
    by auto
  have "map_option fst (handle_message ?rx home_session ?B) = Some CONNECTED_NOT_SAVED"
    by code_simp
  then obtain sb s'b where
    b: "handle_message ?rx home_session ?B = Some (CONNECTED_NOT_SAVED, sb, s'b)"
    by auto
  have "map_option fst (handle_message ?rx home_session ?C) = Some CONNECT_FAILED"
    by code_simp
  then obtain sc s'c where c: "handle_message ?rx home_session ?C = Some (CONNECT_FAILED, sc, s'c)"
    by auto
  have "map_option (stored \<circ> snd \<circ> snd) (handle_message ?rx home_session ?C) = Some None"
    by code_simp
  with c have n: "stored s'c = None" by simp
  from secret_phase_outcome [OF h1 h2 a] obtain err s1 mid where
    ca: "sa = home_session\<lparr>password := secret, ssid_received := False\<rparr>"
      "connect_wifi (ssid home_session) secret ?A = Some (err, s1)"
      "trace s1 = trace ?A @ Call_connect_wifi (cstr (ssid home_session)) (cstr secret) # mid
                    @ [Ret_connect_wifi err]"
      "s'a = (if err = ESP_OK then snd (nvs_write_wifi_data (ssid home_session) secret s1) else s1)"
      "CONNECTED_SAVED = (if err = ESP_OK
            then (if fst (nvs_write_wifi_data (ssid home_session) secret s1)
                  then CONNECTED_SAVED else CONNECTED_NOT_SAVED)
            else CONNECT_FAILED)"
      "stored s'a = Some (cstr (ssid home_session), cstr secret)"
    by blast
  from ca(5) have ea: "err = ESP_OK" "fst (nvs_write_wifi_data (ssid home_session) secret s1)"
    by (auto split: if_splits)
  from ca ea have A: "\<exists>secret sess' s' s1 mid.
      validate_and_extract_value (?rx @ [0])
        WIFI_PASSWORD_FIELD (password home_session) WIFI_PASS_SIZE = (True, secret) \<and>
      handle_message ?rx home_session ?A = Some (CONNECTED_SAVED, sess', s') \<and>
      sess' = home_session\<lparr>password := secret, ssid_received := False\<rparr> \<and>
      connect_wifi (ssid home_session) secret ?A = Some (ESP_OK, s1) \<and>
      trace s1 = trace ?A @ Call_connect_wifi (cstr (ssid home_session)) (cstr secret) # mid
                 @ [Ret_connect_wifi ESP_OK] \<and>
      fst (nvs_write_wifi_data (ssid home_session) secret s1) \<and>
      s' = snd (nvs_write_wifi_data (ssid home_session) secret s1) \<and>
      stored s' = Some (cstr (ssid home_session), cstr secret)"
    using h2 a by auto
  from secret_phase_outcome [OF h1 h2 b] obtain errb s1b where
    cb: "sb = home_session\<lparr>password := secret, ssid_received := False\<rparr>"
      "connect_wifi (ssid home_session) secret ?B = Some (errb, s1b)"
      "s'b = (if errb = ESP_OK then snd (nvs_write_wifi_data (ssid home_session) secret s1b)
              else s1b)"
      "CONNECTED_NOT_SAVED = (if errb = ESP_OK
            then (if fst (nvs_write_wifi_data (ssid home_session) secret s1b)
                  then CONNECTED_SAVED else CONNECTED_NOT_SAVED)
            else CONNECT_FAILED)"
    by blast
  from cb(4) have eb: "errb = ESP_OK" "\<not> fst (nvs_write_wifi_data (ssid home_session) secret s1b)"
    by (auto split: if_splits)
  from cb eb have B: "\<exists>secret sess' s' s1.
      validate_and_extract_value (?rx @ [0])
        WIFI_PASSWORD_FIELD (password home_session) WIFI_PASS_SIZE = (True, secret) \<and>
      handle_message ?rx home_session ?B = Some (CONNECTED_NOT_SAVED, sess', s') \<and>
      sess' = home_session\<lparr>password := secret, ssid_received := False\<rparr> \<and>
      connect_wifi (ssid home_session) secret ?B = Some (ESP_OK, s1) \<and>
      \<not> fst (nvs_write_wifi_data (ssid home_session) secret s1) \<and>
      s' = snd (nvs_write_wifi_data (ssid home_session) secret s1)"
    using h2 b by auto
  from secret_phase_outcome [OF h1 h2 c] obtain errc s1c where
    cc: "sc = home_session\<lparr>password := secret, ssid_received := False\<rparr>"
      "connect_wifi (ssid home_session) secret ?C = Some (errc, s1c)"
      "errc = ESP_OK \<or> errc = ESP_FAIL"
      "s'c = (if errc = ESP_OK then snd (nvs_write_wifi_data (ssid home_session) secret s1c)
              else s1c)"
      "CONNECT_FAILED = (if errc = ESP_OK
            then (if fst (nvs_write_wifi_data (ssid home_session) secret s1c)
                  then CONNECTED_SAVED else CONNECTED_NOT_SAVED)
            else CONNECT_FAILED)"
    by blast
  from cc(3,5) have ec: "errc = ESP_FAIL" by (auto split: if_splits)
  with cc(4) have sc: "s'c = s1c" by simp
  from cc ec sc n have C: "\<exists>secret sess' s'.
      validate_and_extract_value (?rx @ [0])
        WIFI_PASSWORD_FIELD (password home_session) WIFI_PASS_SIZE = (True, secret) \<and>
      handle_message ?rx home_session ?C = Some (CONNECT_FAILED, sess', s') \<and>
      sess' = home_session\<lparr>password := secret, ssid_received := False\<rparr> \<and>
      connect_wifi (ssid home_session) secret ?C = Some (ESP_FAIL, s') \<and>
      stored s' = None"
    using h2 c by auto
  from h1 A B C show ?thesis by (intro conjI)
qed

text \<open>
  C7: as long as the messages of a client fail the extraction of the key of the current
  phase, the session stays in that phase with its buffers and the system state unchanged,
  and every message is answered with the error notice of the phase: SSID-invalid in the
  first phase, password-invalid in the second, for any number of messages.
\<close>

theorem bad_input_keeps_phase:
  "(\<not> ssid_received sess \<and>
    (\<forall>rx\<in>set msgs. rx \<noteq> [] \<and>
       \<not> fst (validate_and_extract_value (rx @ [0]) WIFI_NAME_FIELD (ssid sess) WIFI_NAME_SIZE))
    \<longrightarrow> serve_client msgs sess s = Some (replicate (length msgs) INVALID_SSID, sess, s)) \<and>
   (ssid_received sess \<and>
    (\<forall>rx\<in>set msgs. rx \<noteq> [] \<and>
       \<not> fst (validate_and_extract_value (rx @ [0]) WIFI_PASSWORD_FIELD (password sess)
               WIFI_PASS_SIZE))
    \<longrightarrow> serve_client msgs sess s = Some (replicate (length msgs) INVALID_PASSWORD, sess, s))"
  using bad_names_run [of sess msgs s] bad_secrets_run [of sess msgs s] by blast

theorem bad_input_keeps_phase_witness:
  "\<not> ssid_received session_start \<and>
   bytes_of ''{'' @ quoted ''wifi_password'' @ COLON # quoted ''x'' @ bytes_of ''}'' \<noteq> [] \<and>
   \<not> fst (validate_and_extract_value
           ((bytes_of ''{'' @ quoted ''wifi_password'' @ COLON # quoted ''x'' @ bytes_of ''}'') @ [0])
           WIFI_NAME_FIELD (ssid session_start) WIFI_NAME_SIZE) \<and>
   bytes_of ''hello'' \<noteq> [] \<and>
   \<not> fst (validate_and_extract_value (bytes_of ''hello'' @ [0])
           WIFI_NAME_FIELD (ssid session_start) WIFI_NAME_SIZE) \<and>
   serve_client
     [bytes_of ''{'' @ quoted ''wifi_password'' @ COLON # quoted ''x'' @ bytes_of ''}'',
      bytes_of ''hello'']
     session_start power_on
     = Some (replicate
               (length [bytes_of ''{'' @ quoted ''wifi_password'' @ COLON # quoted ''x''
                          @ bytes_of ''}'',
                        bytes_of ''hello''])
               INVALID_SSID,
             session_start, power_on) \<and>
   ssid_received (session_start\<lparr>ssid_received := True\<rparr>) \<and>
   bytes_of ''{'' @ quoted ''wifi_name'' @ COLON # quoted ''Home'' @ bytes_of ''}'' \<noteq> [] \<and>
   \<not> fst (validate_and_extract_value
           ((bytes_of ''{'' @ quoted ''wifi_name'' @ COLON # quoted ''Home'' @ bytes_of ''}'') @ [0])
           WIFI_PASSWORD_FIELD (password (session_start\<lparr>ssid_received := True\<rparr>))
           WIFI_PASS_SIZE) \<and>
   serve_client
     [bytes_of ''{'' @ quoted ''wifi_name'' @ COLON # quoted ''Home'' @ bytes_of ''}'',
      bytes_of ''{'' @ quoted ''wifi_name'' @ COLON # quoted ''Home'' @ bytes_of ''}'']
     (session_start\<lparr>ssid_received := True\<rparr>) power_on
     = Some (replicate
               (length [bytes_of ''{'' @ quoted ''wifi_name'' @ COLON # quoted ''Home''
                          @ bytes_of ''}'',
                        bytes_of ''{'' @ quoted ''wifi_name'' @ COLON # quoted ''Home''
                          @ bytes_of ''}''])
               INVALID_PASSWORD,
             session_start\<lparr>ssid_received := True\<rparr>, power_on)"
proof -
  let ?m1 = "bytes_of ''{'' @ quoted ''wifi_password'' @ COLON # quoted ''x'' @ bytes_of ''}''"
  let ?m2 = "bytes_of ''hello''"
  let ?m3 = "bytes_of ''{'' @ quoted ''wifi_name'' @ COLON # quoted ''Home'' @ bytes_of ''}''"
  let ?sess2 = "session_start\<lparr>ssid_received := True\<rparr>"
  have p1: "\<not> ssid_received session_start" by (simp add: session_start_def)
  have a1: "?m1 \<noteq> []" by (simp add: bytes_of_def)
  have a2: "\<not> fst (validate_and_extract_value (?m1 @ [0]) WIFI_NAME_FIELD (ssid session_start)
                    WIFI_NAME_SIZE)"
    by code_simp
  have a3: "?m2 \<noteq> []" by (simp add: bytes_of_def)
  have a4: "\<not> fst (validate_and_extract_value (?m2 @ [0]) WIFI_NAME_FIELD (ssid session_start)
                    WIFI_NAME_SIZE)"
    by code_simp
  have p2: "ssid_received ?sess2" by simp
  have b1: "?m3 \<noteq> []" by (simp add: bytes_of_def)
  have b2: "\<not> fst (validate_and_extract_value (?m3 @ [0]) WIFI_PASSWORD_FIELD (password ?sess2)
                    WIFI_PASS_SIZE)"
    by code_simp
  from a1 a2 a3 a4 have q1: "\<forall>rx\<in>set [?m1, ?m2]. rx \<noteq> [] \<and>
       \<not> fst (validate_and_extract_value (rx @ [0]) WIFI_NAME_FIELD (ssid session_start)
               WIFI_NAME_SIZE)"
    by simp
  from b1 b2 have q2: "\<forall>rx\<in>set [?m3, ?m3]. rx \<noteq> [] \<and>
       \<not> fst (validate_and_extract_value (rx @ [0]) WIFI_PASSWORD_FIELD (password ?sess2)
               WIFI_PASS_SIZE)"
    by simp
  from bad_input_keeps_phase [of session_start "[?m1, ?m2]" power_on] p1 q1
  have c1: "serve_client [?m1, ?m2] session_start power_on
     = Some (replicate (length [?m1, ?m2]) INVALID_SSID, session_start, power_on)"
    by blast
  from bad_input_keeps_phase [of ?sess2 "[?m3, ?m3]" power_on] p2 q2
  have c2: "serve_client [?m3, ?m3] ?sess2 power_on
     = Some (replicate (length [?m3, ?m3]) INVALID_PASSWORD, ?sess2, power_on)"
    by blast
  from p1 a1 a2 a3 a4 c1 p2 b1 b2 c2 show ?thesis by blast
qed

text \<open>
  C9: every pair the system persists has a non-empty name and a non-empty secret. The
  code breaks this. \<open>connect_wifi\<close> waits on the connected bit without clearing it first, so
  a request made while the bit of an earlier connection is still raised returns \<open>ESP_OK\<close> at
  once, with no connection attempt. A client that has provisioned \<open>Home\<close> and then sends an
  empty name and an empty secret is answered connected-and-saved, the trace shows no
  attempt for the second request, and the store holds two empty strings. Without the
  left-over bit the same two messages are answered connection-failed and nothing is
  stored.
\<close>

theorem empty_fields_persisted:
  "map_option fst
     (serve_client
        [one_field ''wifi_name'' ''Home'', one_field ''wifi_password'' ''secret123'',
         one_field ''wifi_name'' [], one_field ''wifi_password'' []]
        session_start (power_on\<lparr>ticks := network_answers\<rparr>))
     = Some [SSID_RECEIVED, CONNECTED_SAVED, SSID_RECEIVED, CONNECTED_SAVED] \<and>
   map_option (stored \<circ> snd \<circ> snd)
     (serve_client
        [one_field ''wifi_name'' ''Home'', one_field ''wifi_password'' ''secret123'',
         one_field ''wifi_name'' [], one_field ''wifi_password'' []]
        session_start (power_on\<lparr>ticks := network_answers\<rparr>))
     = Some (Some ([], [])) \<and>
   map_option (trace \<circ> snd \<circ> snd)
     (serve_client
        [one_field ''wifi_name'' ''Home'', one_field ''wifi_password'' ''secret123'',
         one_field ''wifi_name'' [], one_field ''wifi_password'' []]
        session_start (power_on\<lparr>ticks := network_answers\<rparr>))
     = Some [Call_connect_wifi (bytes_of ''Home'') (bytes_of ''secret123''),
             Call_esp_wifi_connect, Ret_connect_wifi ESP_OK,
             Call_connect_wifi [] [], Ret_connect_wifi ESP_OK] \<and>
   map_option fst
     (serve_client [one_field ''wifi_name'' [], one_field ''wifi_password'' []]
        session_start (power_on\<lparr>ticks := network_silent\<rparr>))
     = Some [SSID_RECEIVED, CONNECT_FAILED] \<and>
   map_option (stored \<circ> snd \<circ> snd)
     (serve_client [one_field ''wifi_name'' [], one_field ''wifi_password'' []]
        session_start (power_on\<lparr>ticks := network_silent\<rparr>))
     = Some None"
  by code_simp

section \<open>Claims about the start of the application\<close>



section \<open>The destination buffer on failure\<close>

text \<open>
  C10: a call that returns not-found leaves the destination buffer as it was. Every
  search and the capacity check come before the first write.
\<close>

theorem not_found_keeps_output:
  assumes "\<not> fst (validate_and_extract_value json_str key output output_size)"
  shows "snd (validate_and_extract_value json_str key output output_size) = output"
  using validate_not_found [OF assms] by simp

theorem not_found_keeps_output_witness:
  "\<not> fst (validate_and_extract_value
           (bytes_of ''{'' @ quoted ''wifi_name'' @ COLON # quoted ''Home'' @ bytes_of ''}'')
           (quoted ''wifi_name'') [1, 2, 3, 4] 4) \<and>
   snd (validate_and_extract_value
           (bytes_of ''{'' @ quoted ''wifi_name'' @ COLON # quoted ''Home'' @ bytes_of ''}'')
           (quoted ''wifi_name'') [1, 2, 3, 4] 4) = [1, 2, 3, 4]"
proof -
  have h: "\<not> fst (validate_and_extract_value
           (bytes_of ''{'' @ quoted ''wifi_name'' @ COLON # quoted ''Home'' @ bytes_of ''}'')
           (quoted ''wifi_name'') [1, 2, 3, 4] 4)"
    by code_simp
  from h not_found_keeps_output [OF h] show ?thesis by (rule conjI)
qed


end
